theory Spec2Isabelle
  imports Main "HOL-Library.AList"
begin

section \<open>Data model of pox/openflow/topology.py\<close>

text \<open>
  Python objects live in an explicit store: a switch object and a port object are
  addresses into two heaps, handed out by one allocation counter. An address below
  the counter is allocated; object identity is equality of addresses. Connections,
  timers and listener registrations are opaque handles.
\<close>

type_synonym dpid = nat
type_synonym sref = nat
type_synonym pref = nat
type_synonym conn = nat
type_synonym tref = nat
type_synonym lid = nat

datatype py_error = AssertionError | KeyError | AttributeError

text \<open>The port descriptor \<open>ofp_phy_port\<close> and the handshake reply carrying the port list.\<close>

record ofp_phy_port =
  port_no :: nat
  hw_addr :: nat
  name :: string
  config :: nat
  state :: nat

record ofp_features =
  ofp_capabilities :: nat
  ofp_ports :: "ofp_phy_port list"

text \<open>
  Modelled from the spec: the constants of libopenflow_01 that the module reads, the
  port-status reason codes (add, delete, modify) and the controller port number.
\<close>

definition OFPPR_ADD :: nat where "OFPPR_ADD = 0"
definition OFPPR_DELETE :: nat where "OFPPR_DELETE = 1"
definition OFPPR_MODIFY :: nat where "OFPPR_MODIFY = 2"
definition OFPP_CONTROLLER :: nat where "OFPP_CONTROLLER = 65533"

text \<open>class OpenFlowPort: the fields of the base Port (number, hwAddr, name) and its own.\<close>

record OpenFlowPort =
  number :: nat
  hwAddr :: nat
  port_name :: string
  isController :: bool
  port_config :: nat
  port_state :: nat
  exists :: bool
  entities :: "sref set"

text \<open>class OpenFlowSwitch; \<open>ports\<close> is the dict from port number to port object.\<close>

record OpenFlowSwitch =
  dpid :: nat
  ports :: "(nat \<times> pref) list"
  capabilities :: nat
  connection :: "conn option"
  listeners :: "lid list"
  reconnectTimeout :: "tref option"

datatype event =
    SwitchJoin sref
  | SwitchLeave sref
  | PortStatus sref nat ofp_phy_port

datatype log_msg =
    WarnAlreadyConnected dpid
  | WarnDoesNotExist dpid
  | WarnWasNotConnected dpid
  | InfoConnected dpid
  | InfoDisconnected dpid
  | DebugReady

text \<open>An attribute of the adaptor object: never set, set to None, or bound to a component.\<close>

datatype attr = Unset | PyNone | Bound

text \<open>class OpenFlowTopology: the wanted set, the attributes set by name, its subscriptions.\<close>

record OpenFlowTopology =
  wantComponents :: "string list option"
  attrs :: "string \<Rightarrow> attr"
  listening :: "string set"
  listening_core :: bool

record world =
  switches :: "sref \<Rightarrow> OpenFlowSwitch"
  port_objs :: "pref \<Rightarrow> OpenFlowPort"
  next_ref :: nat
  entities_by_id :: "dpid \<rightharpoonup> sref"
  timers :: "tref \<rightharpoonup> sref"
  con_listeners :: "(conn \<times> lid \<times> sref) set"
  raised :: "event list"
  logged :: "log_msg list"
  core_components :: "string set"
  adaptor :: OpenFlowTopology

text \<open>
  A handler either returns, leaving a world, or raises, leaving the world as it was
  mutated up to the raise.
\<close>

type_synonym outcome = "(py_error \<times> world) + world"

definition state_of :: "outcome \<Rightarrow> world" where
  "state_of r = (case r of Inl (e, w) \<Rightarrow> w | Inr w \<Rightarrow> w)"

definition set_switch :: "sref \<Rightarrow> OpenFlowSwitch \<Rightarrow> world \<Rightarrow> world" where
  "set_switch s sw w = w\<lparr>switches := (switches w)(s := sw)\<rparr>"

definition set_port :: "pref \<Rightarrow> OpenFlowPort \<Rightarrow> world \<Rightarrow> world" where
  "set_port r po w = w\<lparr>port_objs := (port_objs w)(r := po)\<rparr>"

section \<open>OpenFlowPort\<close>

text \<open>
  \<open>OpenFlowPort._update\<close>: two assertions, then the three assignments. The address
  wrapper EthAddr keeps the value.
\<close>

definition OpenFlowPort_update :: "OpenFlowPort \<Rightarrow> ofp_phy_port \<Rightarrow> py_error + OpenFlowPort" where
  "OpenFlowPort_update po ofp =
     (if port_name po \<noteq> name ofp then Inl AssertionError
      else if number po \<noteq> port_no ofp then Inl AssertionError
      else Inr (po\<lparr>hwAddr := hw_addr ofp, port_config := config ofp, port_state := state ofp\<rparr>))"

text \<open>
  \<open>OpenFlowPort.__init__\<close>: the base constructor stores number, address and name of the
  descriptor, so the two assertions of the \<open>_update\<close> it then calls hold.
\<close>

definition OpenFlowPort_init :: "ofp_phy_port \<Rightarrow> OpenFlowPort" where
  "OpenFlowPort_init ofp =
     \<lparr>number = port_no ofp, hwAddr = hw_addr ofp, port_name = name ofp,
      isController = (port_no ofp = OFPP_CONTROLLER),
      port_config = config ofp, port_state = state ofp,
      exists = True, entities = {}\<rparr>"

text \<open>\<open>OpenFlowPort.addEntity\<close>.\<close>

definition addEntity :: "OpenFlowPort \<Rightarrow> sref \<Rightarrow> bool \<Rightarrow> OpenFlowPort" where
  "addEntity po entity single =
     (if single then po\<lparr>entities := {entity}\<rparr>
      else po\<lparr>entities := insert entity (entities po)\<rparr>)"

section \<open>OpenFlowSwitch\<close>

text \<open>\<open>OpenFlowSwitch.__init__\<close>.\<close>

definition OpenFlowSwitch_init :: "dpid \<Rightarrow> OpenFlowSwitch" where
  "OpenFlowSwitch_init d =
     \<lparr>dpid = d, ports = [], capabilities = 0, connection = None,
      listeners = [], reconnectTimeout = None\<rparr>"

text \<open>
  The first loop of the port update in \<open>_setConnection\<close>, over \<open>ofp.ports\<close>, with the
  set \<open>untouched\<close> as a list of keys.
\<close>

fun update_ports :: "sref \<Rightarrow> ofp_phy_port list \<Rightarrow> nat list \<Rightarrow> world \<Rightarrow> (py_error \<times> world) + (nat list \<times> world)" where
  "update_ports s [] untouched w = Inr (untouched, w)"
| "update_ports s (p # ps) untouched w =
     (case map_of (ports (switches w s)) (port_no p) of
        Some r \<Rightarrow>
          (case OpenFlowPort_update (port_objs w r) p of
             Inl e \<Rightarrow> Inl (e, w)
           | Inr po \<Rightarrow>
               if port_no p \<in> set untouched
               then update_ports s ps (removeAll (port_no p) untouched) (set_port r po w)
               else Inl (KeyError, set_port r po w))
      | None \<Rightarrow>
          update_ports s ps untouched
            (set_switch s
               ((switches w s)\<lparr>ports := AList.update (port_no p) (next_ref w) (ports (switches w s))\<rparr>)
               (set_port (next_ref w) (OpenFlowPort_init p) (w\<lparr>next_ref := Suc (next_ref w)\<rparr>))))"

text \<open>The second loop, over \<open>untouched\<close>.\<close>

fun remove_untouched :: "sref \<Rightarrow> nat list \<Rightarrow> world \<Rightarrow> outcome" where
  "remove_untouched s [] w = Inr w"
| "remove_untouched s (k # ks) w =
     (case map_of (ports (switches w s)) k of
        None \<Rightarrow> Inl (KeyError, w)
      | Some r \<Rightarrow>
          remove_untouched s ks
            (set_switch s ((switches w s)\<lparr>ports := AList.delete k (ports (switches w s))\<rparr>)
               (set_port r ((port_objs w r)\<lparr>exists := False\<rparr>) w)))"

text \<open>
  Modelled from the spec: the event mixin of pox.lib.revent and the Timer of
  pox.lib.recoco, which are not in this module. \<open>removeListeners\<close> takes
  registrations off a source, \<open>listenTo\<close> registers the handlers of a listener and
  returns the registration, \<open>Timer\<close> is a one-shot cancellable task.
\<close>

definition removeListeners :: "conn \<Rightarrow> lid list \<Rightarrow> world \<Rightarrow> world" where
  "removeListeners c ls w =
     w\<lparr>con_listeners := {x \<in> con_listeners w. \<not> (fst x = c \<and> fst (snd x) \<in> set ls)}\<rparr>"

definition listenTo_con :: "sref \<Rightarrow> conn \<Rightarrow> world \<Rightarrow> world" where
  "listenTo_con s c w =
     set_switch s ((switches w s)\<lparr>listeners := [next_ref w]\<rparr>)
       (w\<lparr>con_listeners := insert (c, next_ref w, s) (con_listeners w),
          next_ref := Suc (next_ref w)\<rparr>)"

definition cancel_timer :: "tref \<Rightarrow> world \<Rightarrow> world" where
  "cancel_timer t w = w\<lparr>timers := (timers w)(t := None)\<rparr>"

definition new_Timer :: "sref \<Rightarrow> world \<Rightarrow> world" where
  "new_Timer s w =
     set_switch s ((switches w s)\<lparr>reconnectTimeout := Some (next_ref w)\<rparr>)
       (w\<lparr>timers := (timers w)(next_ref w \<mapsto> s), next_ref := Suc (next_ref w)\<rparr>)"

text \<open>The part of \<open>_setConnection\<close> before the port update.\<close>

definition setConnection_head :: "sref \<Rightarrow> conn option \<Rightarrow> world \<Rightarrow> world" where
  "setConnection_head s c w =
     (let w1 = (case connection (switches w s) of
                  Some old \<Rightarrow> removeListeners old (listeners (switches w s)) w
                | None \<Rightarrow> w);
          w2 = set_switch s ((switches w1 s)\<lparr>listeners := [], connection := c\<rparr>) w1;
          w3 = (case reconnectTimeout (switches w2 s) of
                  Some t \<Rightarrow> set_switch s ((switches w2 s)\<lparr>reconnectTimeout := None\<rparr>) (cancel_timer t w2)
                | None \<Rightarrow> w2)
      in case c of None \<Rightarrow> new_Timer s w3 | Some x \<Rightarrow> w3)"

text \<open>The port update of \<open>_setConnection\<close>, run when \<open>ofp\<close> is given.\<close>

definition setConnection_ports :: "sref \<Rightarrow> ofp_features \<Rightarrow> world \<Rightarrow> outcome" where
  "setConnection_ports s ofp w =
     (let w1 = set_switch s ((switches w s)\<lparr>capabilities := ofp_capabilities ofp\<rparr>) w
      in case update_ports s (ofp_ports ofp) (map fst (ports (switches w1 s))) w1 of
           Inl e \<Rightarrow> Inl e
         | Inr (untouched, w2) \<Rightarrow> remove_untouched s untouched w2)"

text \<open>\<open>OpenFlowSwitch._setConnection\<close>.\<close>

definition setConnection :: "sref \<Rightarrow> conn option \<Rightarrow> ofp_features option \<Rightarrow> world \<Rightarrow> outcome" where
  "setConnection s c ofp w =
     (case (case ofp of
              None \<Rightarrow> Inr (setConnection_head s c w)
            | Some f \<Rightarrow> setConnection_ports s f (setConnection_head s c w)) of
        Inl e \<Rightarrow> Inl e
      | Inr w1 \<Rightarrow> (case c of None \<Rightarrow> Inr w1 | Some x \<Rightarrow> Inr (listenTo_con s x w1)))"


text \<open>\<open>OpenFlowSwitch._handle_con_ConnectionDown\<close>.\<close>

definition handle_con_ConnectionDown :: "sref \<Rightarrow> world \<Rightarrow> outcome" where
  "handle_con_ConnectionDown s w = setConnection s None None w"

text \<open>
  \<open>OpenFlowSwitch._handle_con_PortStatus\<close>, with the port-status message given by its
  reason and its port descriptor.
\<close>

definition handle_con_PortStatus :: "sref \<Rightarrow> nat \<Rightarrow> ofp_phy_port \<Rightarrow> world \<Rightarrow> outcome" where
  "handle_con_PortStatus s reason p w =
     (case (if reason = OFPPR_DELETE then
              (case map_of (ports (switches w s)) (port_no p) of
                 Some r \<Rightarrow>
                   Inr (set_switch s
                          ((switches w s)\<lparr>ports := AList.delete (port_no p) (ports (switches w s))\<rparr>)
                          (set_port r ((port_objs w r)\<lparr>exists := False\<rparr>) w))
               | None \<Rightarrow> Inr w)
            else if reason = OFPPR_MODIFY then
              (case map_of (ports (switches w s)) (port_no p) of
                 None \<Rightarrow> Inl (KeyError, w)
               | Some r \<Rightarrow>
                   (case OpenFlowPort_update (port_objs w r) p of
                      Inl e \<Rightarrow> Inl (e, w)
                    | Inr po \<Rightarrow> Inr (set_port r po w)))
            else if reason \<noteq> OFPPR_ADD then Inl (AssertionError, w)
            else if map_of (ports (switches w s)) (port_no p) \<noteq> None then Inl (AssertionError, w)
            else
              Inr (set_switch s
                     ((switches w s)\<lparr>ports := AList.update (port_no p) (next_ref w) (ports (switches w s))\<rparr>)
                     (set_port (next_ref w) (OpenFlowPort_init p) (w\<lparr>next_ref := Suc (next_ref w)\<rparr>)))) of
        Inl e \<Rightarrow> Inl e
      | Inr w1 \<Rightarrow> Inr (w1\<lparr>raised := raised w1 @ [PortStatus s reason p]\<rparr>))"

section \<open>The topology store and the core\<close>

text \<open>
  Modelled from the spec: the topology store of pox.topology, an entity registry keyed
  by identifier with add, remove and lookup by identifier, and the component registry
  of pox.core, which has a component or not.
\<close>

definition getEntityByID :: "world \<Rightarrow> dpid \<Rightarrow> sref option" where
  "getEntityByID w d = entities_by_id w d"

definition topology_addEntity :: "sref \<Rightarrow> world \<Rightarrow> world" where
  "topology_addEntity s w = w\<lparr>entities_by_id := (entities_by_id w)(dpid (switches w s) \<mapsto> s)\<rparr>"

definition topology_removeEntity :: "sref \<Rightarrow> world \<Rightarrow> world" where
  "topology_removeEntity s w = w\<lparr>entities_by_id := (entities_by_id w)(dpid (switches w s) := None)\<rparr>"

definition hasComponent :: "world \<Rightarrow> string \<Rightarrow> bool" where
  "hasComponent w c \<longleftrightarrow> c \<in> core_components w"

definition log_append :: "log_msg \<Rightarrow> world \<Rightarrow> world" where
  "log_append m w = w\<lparr>logged := logged w @ [m]\<rparr>"

text \<open>
  \<open>OpenFlowSwitch._timer_ReconnectTimeout\<close>; reading \<open>core.topology\<close> fails when the
  component is not registered.
\<close>

definition timer_ReconnectTimeout :: "sref \<Rightarrow> world \<Rightarrow> outcome" where
  "timer_ReconnectTimeout s w =
     (let w1 = set_switch s ((switches w s)\<lparr>reconnectTimeout := None\<rparr>) w
      in if \<not> hasComponent w1 ''topology'' then Inl (AttributeError, w1)
         else let w2 = topology_removeEntity s w1
              in Inr (w2\<lparr>raised := raised w2 @ [SwitchLeave s]\<rparr>))"

text \<open>
  Modelled from the spec: the expiry of a one-shot timer. A timer that is pending runs
  its callback once; a timer that was cancelled, or has fired, does nothing.
\<close>

definition fire_timer :: "tref \<Rightarrow> world \<Rightarrow> outcome" where
  "fire_timer t w =
     (case timers w t of
        None \<Rightarrow> Inr w
      | Some s \<Rightarrow> timer_ReconnectTimeout s (w\<lparr>timers := (timers w)(t := None)\<rparr>))"

section \<open>OpenFlowTopology\<close>

text \<open>The loop of \<open>_resolveComponents\<close> over the wanted set; it returns \<open>got\<close>.\<close>

fun resolve_loop :: "string list \<Rightarrow> string list \<Rightarrow> world \<Rightarrow> string list \<times> world" where
  "resolve_loop [] got w = (got, w)"
| "resolve_loop (c # cs) got w =
     (if hasComponent w c
      then resolve_loop cs (got @ [c])
             (w\<lparr>adaptor := (adaptor w)\<lparr>attrs := (attrs (adaptor w))(c := Bound),
                                        listening := insert c (listening (adaptor w))\<rparr>\<rparr>)
      else resolve_loop cs got
             (w\<lparr>adaptor := (adaptor w)\<lparr>attrs := (attrs (adaptor w))(c := PyNone)\<rparr>\<rparr>))"

text \<open>
  \<open>OpenFlowTopology._resolveComponents\<close>. At the end the source assigns None to an
  attribute \<open>wantComponents\<close> that nothing reads, so the wanted set stays empty.
\<close>

definition resolveComponents :: "world \<Rightarrow> bool \<times> world" where
  "resolveComponents w =
     (case wantComponents (adaptor w) of
        None \<Rightarrow> (True, w)
      | Some wanted \<Rightarrow>
          if length wanted = 0
          then (True, w\<lparr>adaptor := (adaptor w)\<lparr>wantComponents := None\<rparr>\<rparr>)
          else
            (case resolve_loop wanted [] w of
               (got, w1) \<Rightarrow>
                 let rest = filter (\<lambda>c. c \<notin> set got) wanted;
                     w2 = w1\<lparr>adaptor := (adaptor w1)\<lparr>wantComponents := Some rest\<rparr>\<rparr>
                 in if length rest = 0 then (True, log_append DebugReady w2) else (False, w2)))"

text \<open>\<open>OpenFlowTopology.__init__\<close>, for a class whose wanted set is \<open>wanted\<close>.\<close>

definition new_adaptor :: "string list \<Rightarrow> OpenFlowTopology" where
  "new_adaptor wanted =
     \<lparr>wantComponents = Some wanted, attrs = (\<lambda>c. Unset), listening = {}, listening_core = False\<rparr>"

definition OpenFlowTopology_init :: "string list \<Rightarrow> world \<Rightarrow> world" where
  "OpenFlowTopology_init wanted w =
     (case resolveComponents (w\<lparr>adaptor := new_adaptor wanted\<rparr>) of
        (ready, w1) \<Rightarrow>
          if \<not> ready then w1\<lparr>adaptor := (adaptor w1)\<lparr>listening_core := True\<rparr>\<rparr> else w1)"

text \<open>\<open>OpenFlowTopology._handle_ComponentRegistered\<close>; returning EventRemove ends the subscription.\<close>

definition handle_ComponentRegistered :: "world \<Rightarrow> world" where
  "handle_ComponentRegistered w =
     (case resolveComponents w of
        (ready, w1) \<Rightarrow>
          if ready then w1\<lparr>adaptor := (adaptor w1)\<lparr>listening_core := False\<rparr>\<rparr> else w1)"

text \<open>\<open>OpenFlowTopology._handle_openflow_ConnectionUp\<close>.\<close>

definition handle_openflow_ConnectionUp :: "dpid \<Rightarrow> conn \<Rightarrow> ofp_features \<Rightarrow> world \<Rightarrow> outcome" where
  "handle_openflow_ConnectionUp d c ofp w =
     (if attrs (adaptor w) ''topology'' \<noteq> Bound then Inl (AttributeError, w)
      else
        (case getEntityByID w d of
           None \<Rightarrow>
             (case setConnection (next_ref w) (Some c) (Some ofp)
                     (set_switch (next_ref w) (OpenFlowSwitch_init d) (w\<lparr>next_ref := Suc (next_ref w)\<rparr>)) of
                Inl e \<Rightarrow> Inl e
              | Inr w2 \<Rightarrow>
                  (let w3 = topology_addEntity (next_ref w) (log_append (InfoConnected d) w2)
                   in Inr (w3\<lparr>raised := raised w3 @ [SwitchJoin (next_ref w)]\<rparr>)))
         | Some s \<Rightarrow>
             (case setConnection s (Some c) (Some ofp)
                     (if connection (switches w s) \<noteq> None
                      then log_append (WarnAlreadyConnected d) w else w) of
                Inl e \<Rightarrow> Inl e
              | Inr w2 \<Rightarrow> Inr (log_append (InfoConnected d) w2))))"

text \<open>\<open>OpenFlowTopology._handle_openflow_ConnectionDown\<close>.\<close>

definition handle_openflow_ConnectionDown :: "dpid \<Rightarrow> world \<Rightarrow> outcome" where
  "handle_openflow_ConnectionDown d w =
     (if attrs (adaptor w) ''topology'' \<noteq> Bound then Inl (AttributeError, w)
      else
        (case getEntityByID w d of
           None \<Rightarrow> Inr (log_append (WarnDoesNotExist d) w)
         | Some s \<Rightarrow>
             (let w1 = (if connection (switches w s) = None
                        then log_append (WarnWasNotConnected d) w else w)
              in Inr (log_append (InfoDisconnected d)
                        (set_switch s ((switches w1 s)\<lparr>connection := None\<rparr>) w1)))))"

text \<open>The link event of the discovery module and \<open>_handle_openflow_discovery_LinkEvent\<close>.\<close>

record link_event =
  dpid1 :: nat
  port1 :: nat
  dpid2 :: nat
  port2 :: nat
  added :: bool
  removed :: bool

definition set_remove :: "pref \<Rightarrow> sref \<Rightarrow> world \<Rightarrow> outcome" where
  "set_remove r x w =
     (if x \<in> entities (port_objs w r)
      then Inr (set_port r ((port_objs w r)\<lparr>entities := entities (port_objs w r) - {x}\<rparr>) w)
      else Inl (KeyError, w))"

definition handle_openflow_discovery_LinkEvent :: "link_event \<Rightarrow> world \<Rightarrow> outcome" where
  "handle_openflow_discovery_LinkEvent ev w =
     (case attrs (adaptor w) ''topology'' of
        Unset \<Rightarrow> Inl (AttributeError, w)
      | PyNone \<Rightarrow> Inr w
      | Bound \<Rightarrow>
          (case getEntityByID w (dpid1 ev) of
             None \<Rightarrow> Inr w
           | Some sw1 \<Rightarrow>
               (case getEntityByID w (dpid2 ev) of
                  None \<Rightarrow> Inr w
                | Some sw2 \<Rightarrow>
                    (case map_of (ports (switches w sw1)) (port1 ev) of
                       None \<Rightarrow> Inr w
                     | Some r1 \<Rightarrow>
                         (case map_of (ports (switches w sw2)) (port2 ev) of
                            None \<Rightarrow> Inr w
                          | Some r2 \<Rightarrow>
                              if added ev then
                                (let w1 = set_port r1 (addEntity (port_objs w r1) sw2 True) w
                                 in Inr (set_port r2 (addEntity (port_objs w1 r2) sw1 True) w1))
                              else if removed ev then
                                (case set_remove r1 sw2 w of
                                   Inl e \<Rightarrow> Inl e
                                 | Inr w1 \<Rightarrow> set_remove r2 sw1 w1)
                              else Inr w)))))"

text \<open>
  Modelled from the spec: the dispatch of pox.lib.revent. An event of a component
  reaches the adaptor's handler when the adaptor listens to that component; a
  registration with the core adds the component and tells the listeners of the core.
\<close>

datatype inbound =
    ConnectionUp dpid conn ofp_features
  | ConnectionDown dpid
  | LinkEvent link_event
  | ComponentRegistered string

fun deliver :: "inbound \<Rightarrow> world \<Rightarrow> outcome" where
  "deliver (ConnectionUp d c ofp) w =
     (if ''openflow'' \<in> listening (adaptor w) then handle_openflow_ConnectionUp d c ofp w else Inr w)"
| "deliver (ConnectionDown d) w =
     (if ''openflow'' \<in> listening (adaptor w) then handle_openflow_ConnectionDown d w else Inr w)"
| "deliver (LinkEvent ev) w =
     (if ''openflow_discovery'' \<in> listening (adaptor w)
      then handle_openflow_discovery_LinkEvent ev w else Inr w)"
| "deliver (ComponentRegistered c) w =
     (if listening_core (adaptor w) then Inr (handle_ComponentRegistered w) else Inr w)"

definition core_register :: "string \<Rightarrow> world \<Rightarrow> outcome" where
  "core_register c w = deliver (ComponentRegistered c) (w\<lparr>core_components := insert c (core_components w)\<rparr>)"

text \<open>The world before anything is registered, and the wanted set of the class.\<close>

definition empty_world :: world where
  "empty_world =
     \<lparr>switches = (\<lambda>s. OpenFlowSwitch_init 0),
      port_objs = (\<lambda>r. OpenFlowPort_init \<lparr>port_no = 0, hw_addr = 0, name = [], config = 0, state = 0\<rparr>),
      next_ref = 0, entities_by_id = Map.empty, timers = Map.empty, con_listeners = {},
      raised = [], logged = [], core_components = {},
      adaptor = new_adaptor []\<rparr>"

definition wanted_components :: "string list" where
  "wanted_components = [''openflow'', ''topology'', ''openflow_discovery'']"

section \<open>Auxiliary notions for the proofs\<close>

text \<open>The port table of a switch as a map.\<close>

definition table :: "world \<Rightarrow> sref \<Rightarrow> nat \<rightharpoonup> pref" where
  "table w s = map_of (ports (switches w s))"

text \<open>
  The port table of a switch is well formed: its keys are distinct, and every entry is
  an allocated port object that carries the number it is stored under.
\<close>

definition ports_wf :: "sref \<Rightarrow> world \<Rightarrow> bool" where
  "ports_wf s w =
     (distinct (map fst (ports (switches w s))) \<and>
      (\<forall>k r. table w s k = Some r \<longrightarrow> r < next_ref w \<and> number (port_objs w r) = k))"

text \<open>One step of the first loop on a tracked and on an untracked port number.\<close>

definition step_tracked :: "pref \<Rightarrow> ofp_phy_port \<Rightarrow> world \<Rightarrow> world" where
  "step_tracked r p w =
     set_port r ((port_objs w r)\<lparr>hwAddr := hw_addr p, port_config := config p, port_state := state p\<rparr>) w"

definition step_new :: "sref \<Rightarrow> ofp_phy_port \<Rightarrow> world \<Rightarrow> world" where
  "step_new s p w =
     set_switch s
       ((switches w s)\<lparr>ports := AList.update (port_no p) (next_ref w) (ports (switches w s))\<rparr>)
       (set_port (next_ref w) (OpenFlowPort_init p) (w\<lparr>next_ref := Suc (next_ref w)\<rparr>))"

definition step_remove :: "sref \<Rightarrow> nat \<Rightarrow> pref \<Rightarrow> world \<Rightarrow> world" where
  "step_remove s k r w =
     set_switch s ((switches w s)\<lparr>ports := AList.delete k (ports (switches w s))\<rparr>)
       (set_port r ((port_objs w r)\<lparr>exists := False\<rparr>) w)"

text \<open>What neither loop touches, whether it returns or raises.\<close>

definition ports_frame :: "sref \<Rightarrow> world \<Rightarrow> world \<Rightarrow> bool" where
  "ports_frame s w w' \<longleftrightarrow>
     entities_by_id w' = entities_by_id w \<and> timers w' = timers w \<and>
     con_listeners w' = con_listeners w \<and> raised w' = raised w \<and> logged w' = logged w \<and>
     core_components w' = core_components w \<and> adaptor w' = adaptor w \<and>
     next_ref w \<le> next_ref w' \<and>
     (\<forall>s'. s' \<noteq> s \<longrightarrow> switches w' s' = switches w s') \<and>
     switches w' s = (switches w s)\<lparr>ports := ports (switches w' s)\<rparr> \<and>
     (\<forall>r<next_ref w. number (port_objs w' r) = number (port_objs w r) \<and>
        port_name (port_objs w' r) = port_name (port_objs w r) \<and>
        isController (port_objs w' r) = isController (port_objs w r) \<and>
        entities (port_objs w' r) = entities (port_objs w r))"

definition loop_world :: "(py_error \<times> world) + (nat list \<times> world) \<Rightarrow> world" where
  "loop_world x = (case x of Inl (e, w) \<Rightarrow> w | Inr (U, w) \<Rightarrow> w)"


section \<open>Example worlds\<close>

text \<open>
  The adaptor once all three components are registered, a switch with datapath
  identifier 1 that connects with the ports 1 (eth0) and 2 (eth1), and handshakes that
  report other port lists.
\<close>

definition ready_world :: world where
  "ready_world =
     OpenFlowTopology_init wanted_components
       (empty_world\<lparr>core_components := set wanted_components\<rparr>)"

definition eth :: "nat \<Rightarrow> string \<Rightarrow> ofp_phy_port" where
  "eth n nm = \<lparr>port_no = n, hw_addr = 100 + n, name = nm, config = 0, state = 0\<rparr>"

definition features1 :: ofp_features where
  "features1 = \<lparr>ofp_capabilities = 7, ofp_ports = [eth 1 ''eth0'', eth 2 ''eth1'']\<rparr>"

definition features2 :: ofp_features where
  "features2 = \<lparr>ofp_capabilities = 7, ofp_ports = [eth 1 ''eth0'', eth 3 ''eth2'']\<rparr>"

definition features_renamed :: ofp_features where
  "features_renamed = \<lparr>ofp_capabilities = 7, ofp_ports = [eth 1 ''eth9'']\<rparr>"

definition connected_world :: world where
  "connected_world = state_of (handle_openflow_ConnectionUp 1 10 features1 ready_world)"

definition renamed_run :: outcome where
  "renamed_run = setConnection 0 (Some 11) (Some features_renamed) connected_world"

text \<open>What \<open>_setConnection\<close> as a whole leaves alone, whether it returns or raises.\<close>

definition conn_frame :: "sref \<Rightarrow> world \<Rightarrow> world \<Rightarrow> bool" where
  "conn_frame s w w' \<longleftrightarrow>
     entities_by_id w' = entities_by_id w \<and> raised w' = raised w \<and> logged w' = logged w \<and>
     core_components w' = core_components w \<and> adaptor w' = adaptor w \<and>
     next_ref w \<le> next_ref w' \<and>
     (\<forall>s'. s' \<noteq> s \<longrightarrow> switches w' s' = switches w s') \<and>
     dpid (switches w' s) = dpid (switches w s) \<and>
     (\<forall>r<next_ref w. number (port_objs w' r) = number (port_objs w r) \<and>
        port_name (port_objs w' r) = port_name (port_objs w r) \<and>
        isController (port_objs w' r) = isController (port_objs w r) \<and>
        entities (port_objs w' r) = entities (port_objs w r))"

text \<open>A second switch, with datapath identifier 2, and link events between the two.\<close>

definition two_switch_world :: world where
  "two_switch_world = state_of (handle_openflow_ConnectionUp 2 20 features1 connected_world)"

definition link_1_2 :: "bool \<Rightarrow> link_event" where
  "link_1_2 a = \<lparr>dpid1 = 1, port1 = 1, dpid2 = 2, port2 = 1, added = a, removed = \<not> a\<rparr>"

definition link_1_3 :: "bool \<Rightarrow> link_event" where
  "link_1_3 a = \<lparr>dpid1 = 1, port1 = 1, dpid2 = 3, port2 = 1, added = a, removed = \<not> a\<rparr>"

definition linked_world :: world where
  "linked_world = state_of (handle_openflow_discovery_LinkEvent (link_1_2 True) two_switch_world)"

text \<open>
  A disconnect reaches the module on two paths: the connection's own event, handled by the
  switch, and the event of the OpenFlow nexus, handled by the adaptor. A run of
  connection-down handlers is a list of paths.
\<close>

datatype down_path = ViaConnection | ViaNexus

fun disconnect :: "down_path list \<Rightarrow> dpid \<Rightarrow> sref \<Rightarrow> world \<Rightarrow> world" where
  "disconnect [] d s w = w"
| "disconnect (ViaConnection # ps) d s w =
     disconnect ps d s (state_of (handle_con_ConnectionDown s w))"
| "disconnect (ViaNexus # ps) d s w =
     disconnect ps d s (state_of (handle_openflow_ConnectionDown d w))"

text \<open>The topology store, the raised events and the switches' identifiers are the same.\<close>

definition same_registry :: "world \<Rightarrow> world \<Rightarrow> bool" where
  "same_registry w w' \<longleftrightarrow>
     entities_by_id w' = entities_by_id w \<and> raised w' = raised w \<and> adaptor w' = adaptor w \<and>
     core_components w' = core_components w \<and>
     (\<forall>s. dpid (switches w' s) = dpid (switches w s))"

text \<open>The pending timers and the listeners once \<open>_setConnection\<close> has cancelled and removed.\<close>

definition timers_after_cancel :: "sref \<Rightarrow> world \<Rightarrow> tref \<rightharpoonup> sref" where
  "timers_after_cancel s w =
     (case reconnectTimeout (switches w s) of
        None \<Rightarrow> timers w
      | Some t \<Rightarrow> (timers w)(t := None))"

definition listeners_after_remove :: "sref \<Rightarrow> world \<Rightarrow> (conn \<times> lid \<times> sref) set" where
  "listeners_after_remove s w =
     (case connection (switches w s) of
        None \<Rightarrow> con_listeners w
      | Some old \<Rightarrow>
          {x \<in> con_listeners w. \<not> (fst x = old \<and> fst (snd x) \<in> set (listeners (switches w s)))})"

text \<open>
  The connected switch after the nexus's connection-down event, and the adaptor while it
  is still waiting: nothing registered, openflow registered, openflow and topology
  registered.
\<close>

definition nexus_down_world :: world where
  "nexus_down_world = state_of (handle_openflow_ConnectionDown 1 connected_world)"

definition booting_world :: world where
  "booting_world = OpenFlowTopology_init wanted_components empty_world"

definition openflow_only_world :: world where
  "openflow_only_world = state_of (core_register ''openflow'' booting_world)"

definition half_ready_world :: world where
  "half_ready_world = state_of (core_register ''topology'' openflow_only_world)"

section \<open>The port loops of \<open>_setConnection\<close>\<close>

lemma ports_wf_inj:
  "ports_wf s w \<Longrightarrow> table w s k = Some r \<Longrightarrow> table w s k' = Some r \<Longrightarrow> k = k'"
  unfolding ports_wf_def by metis

lemma update_Inr_iff:
  "OpenFlowPort_update po p = Inr po' \<longleftrightarrow>
     port_name po = name p \<and> number po = port_no p \<and>
     po' = po\<lparr>hwAddr := hw_addr p, port_config := config p, port_state := state p\<rparr>"
  by (auto simp: OpenFlowPort_update_def)

lemma update_Inl_iff:
  "OpenFlowPort_update po p = Inl e \<longleftrightarrow>
     e = AssertionError \<and> (port_name po \<noteq> name p \<or> number po \<noteq> port_no p)"
  by (auto simp: OpenFlowPort_update_def)

lemma update_ports_Cons_Inr:
  "update_ports s (p # ps) U w = Inr res \<longleftrightarrow>
     (case table w s (port_no p) of
        Some r \<Rightarrow> port_name (port_objs w r) = name p \<and> number (port_objs w r) = port_no p \<and>
                  port_no p \<in> set U \<and>
                  update_ports s ps (removeAll (port_no p) U) (step_tracked r p w) = Inr res
      | None \<Rightarrow> update_ports s ps U (step_new s p w) = Inr res)"
  by (auto simp: update_ports.simps(2) table_def step_tracked_def step_new_def update_Inr_iff
                 update_Inl_iff
           split: option.splits sum.splits)

declare update_ports.simps(2) [simp del]

lemma table_step_tracked [simp]: "table (step_tracked r p w) s = table w s"
  by (simp add: table_def step_tracked_def set_port_def)

lemma table_step_new [simp]:
  "table (step_new s p w) s k = (if k = port_no p then Some (next_ref w) else table w s k)"
  by (simp add: table_def step_new_def set_port_def set_switch_def update_conv')

lemma dom_table_step_new [simp]:
  "dom (table (step_new s p w) s) = insert (port_no p) (dom (table w s))"
  by (auto simp: dom_def)

lemma port_objs_step_tracked [simp]:
  "port_objs (step_tracked r p w) =
     (port_objs w)(r := (port_objs w r)\<lparr>hwAddr := hw_addr p, port_config := config p, port_state := state p\<rparr>)"
  by (simp add: step_tracked_def set_port_def)

lemma port_objs_step_new [simp]:
  "port_objs (step_new s p w) = (port_objs w)(next_ref w := OpenFlowPort_init p)"
  by (simp add: step_new_def set_port_def set_switch_def)

lemma next_ref_step [simp]:
  "next_ref (step_tracked r p w) = next_ref w"
  "next_ref (step_new s p w) = Suc (next_ref w)"
  by (simp_all add: step_tracked_def step_new_def set_port_def set_switch_def)

lemma keys_step [simp]:
  "ports (switches (step_tracked r p w) s) = ports (switches w s)"
  "ports (switches (step_new s p w) s) = AList.update (port_no p) (next_ref w) (ports (switches w s))"
  by (simp_all add: step_tracked_def step_new_def set_port_def set_switch_def)

lemma ports_wf_step_tracked:
  "ports_wf s w \<Longrightarrow> ports_wf s (step_tracked r p w)"
  by (auto simp: ports_wf_def)

lemma ports_wf_step_new:
  "ports_wf s w \<Longrightarrow> table w s (port_no p) = None \<Longrightarrow> ports_wf s (step_new s p w)"
  apply (auto simp: ports_wf_def distinct_update OpenFlowPort_init_def)
  apply (metis less_Suc_eq)
  done

text \<open>Induction over a run of the first loop that returns.\<close>

lemma update_ports_induct [consumes 2, case_names Nil New Tracked]:
  assumes "update_ports s ps U w = Inr res" and "ports_wf s w"
    and "\<And>U w. ports_wf s w \<Longrightarrow> res = (U, w) \<Longrightarrow> P [] U w"
    and "\<And>p ps U w. ports_wf s w \<Longrightarrow> ports_wf s (step_new s p w) \<Longrightarrow>
           table w s (port_no p) = None \<Longrightarrow>
           update_ports s ps U (step_new s p w) = Inr res \<Longrightarrow>
           P ps U (step_new s p w) \<Longrightarrow> P (p # ps) U w"
    and "\<And>p ps U w r. ports_wf s w \<Longrightarrow> ports_wf s (step_tracked r p w) \<Longrightarrow>
           table w s (port_no p) = Some r \<Longrightarrow> port_name (port_objs w r) = name p \<Longrightarrow>
           port_no p \<in> set U \<Longrightarrow>
           update_ports s ps (removeAll (port_no p) U) (step_tracked r p w) = Inr res \<Longrightarrow>
           P ps (removeAll (port_no p) U) (step_tracked r p w) \<Longrightarrow> P (p # ps) U w"
  shows "P ps U w"
  using assms(1,2)
proof (induction ps arbitrary: U w)
  case Nil
  then show ?case using assms(3) by simp
next
  case (Cons p ps)
  show ?case
  proof (cases "table w s (port_no p)")
    case None
    with Cons.prems have run: "update_ports s ps U (step_new s p w) = Inr res"
      by (simp add: update_ports_Cons_Inr)
    have wf: "ports_wf s (step_new s p w)"
      using Cons.prems(2) None by (rule ports_wf_step_new)
    show ?thesis
      using Cons.prems(2) wf None run Cons.IH [OF run wf] by (rule assms(4))
  next
    case (Some r)
    with Cons.prems have run:
      "update_ports s ps (removeAll (port_no p) U) (step_tracked r p w) = Inr res"
      and nm: "port_name (port_objs w r) = name p" and inU: "port_no p \<in> set U"
      by (simp_all add: update_ports_Cons_Inr)
    have wf: "ports_wf s (step_tracked r p w)"
      using Cons.prems(2) by (rule ports_wf_step_tracked)
    show ?thesis
      using Cons.prems(2) wf Some nm inU run Cons.IH [OF run wf] by (rule assms(5))
  qed
qed

lemma update_ports_wf:
  "update_ports s ps U w = Inr (U', w') \<Longrightarrow> ports_wf s w \<Longrightarrow> ports_wf s w'"
  by (induction rule: update_ports_induct) simp_all

lemma update_ports_next_ref:
  "update_ports s ps U w = Inr (U', w') \<Longrightarrow> ports_wf s w \<Longrightarrow> next_ref w \<le> next_ref w'"
  by (induction rule: update_ports_induct) simp_all

text \<open>The table only grows, and what it gains is freshly allocated and reported.\<close>

lemma update_ports_table_mono:
  "update_ports s ps U w = Inr (U', w') \<Longrightarrow> ports_wf s w \<Longrightarrow> table w s k = Some r \<Longrightarrow>
   table w' s k = Some r"
proof (induction rule: update_ports_induct)
  case (Nil U w)
  then show ?case by simp
next
  case (New p ps U w)
  have "table (step_new s p w) s k = Some r" using New.prems New(3) by auto
  then show ?case by (rule New.IH)
next
  case (Tracked p ps U w r')
  have "table (step_tracked r' p w) s k = Some r" using Tracked.prems by simp
  then show ?case by (rule Tracked.IH)
qed

lemma update_ports_table_new:
  "update_ports s ps U w = Inr (U', w') \<Longrightarrow> ports_wf s w \<Longrightarrow> table w s k = None \<Longrightarrow>
   table w' s k = Some r \<Longrightarrow> next_ref w \<le> r \<and> k \<in> port_no ` set ps"
proof (induction rule: update_ports_induct)
  case (Nil U w)
  then show ?case by simp
next
  case (New p ps U w)
  show ?case
  proof (cases "k = port_no p")
    case True
    have "table (step_new s p w) s k = Some (next_ref w)" using True by simp
    from update_ports_table_mono [OF New(4) New(2) this] New.prems True
    show ?thesis by simp
  next
    case False
    with New show ?thesis by auto
  qed
next
  case (Tracked p ps U w r')
  then show ?case by simp
qed

lemma update_ports_reported_tracked:
  "update_ports s ps U w = Inr (U', w') \<Longrightarrow> ports_wf s w \<Longrightarrow> p \<in> set ps \<Longrightarrow>
   table w' s (port_no p) \<noteq> None"
proof (induction rule: update_ports_induct)
  case (Nil U w)
  then show ?case by simp
next
  case (New q ps U w)
  have "table (step_new s q w) s (port_no q) = Some (next_ref w)" by simp
  from update_ports_table_mono [OF New(4) New(2) this] New show ?case by auto
next
  case (Tracked q ps U w r')
  have "table (step_tracked r' q w) s (port_no q) = Some r'" using Tracked(3) by simp
  from update_ports_table_mono [OF Tracked(6) Tracked(2) this] Tracked show ?case by auto
qed

text \<open>What is left in \<open>untouched\<close>.\<close>

lemma update_ports_untouched:
  "update_ports s ps U w = Inr (U', w') \<Longrightarrow> ports_wf s w \<Longrightarrow> set U \<subseteq> dom (table w s) \<Longrightarrow>
   set U' = set U - port_no ` set ps"
proof (induction rule: update_ports_induct)
  case (Nil U w)
  then show ?case by simp
next
  case (New p ps U w)
  have "set U \<subseteq> dom (table (step_new s p w) s)" using New.prems by auto
  then have "set U' = set U - port_no ` set ps" by (rule New.IH)
  moreover have "port_no p \<notin> set U" using New.prems New(3) by auto
  ultimately show ?case by auto
next
  case (Tracked p ps U w r')
  have "set (removeAll (port_no p) U) \<subseteq> dom (table (step_tracked r' p w) s)"
    using Tracked.prems by auto
  then have "set U' = set (removeAll (port_no p) U) - port_no ` set ps" by (rule Tracked.IH)
  then show ?case by auto
qed

lemma update_ports_untouched_distinct:
  "update_ports s ps U w = Inr (U', w') \<Longrightarrow> ports_wf s w \<Longrightarrow> distinct U \<Longrightarrow> distinct U'"
  by (induction rule: update_ports_induct) (simp_all add: distinct_removeAll)

text \<open>A tracked number that is no longer in \<open>untouched\<close> cannot be reported again.\<close>

lemma update_ports_not_reported:
  "update_ports s ps U w = Inr (U', w') \<Longrightarrow> ports_wf s w \<Longrightarrow> table w s k \<noteq> None \<Longrightarrow>
   k \<notin> set U \<Longrightarrow> k \<notin> port_no ` set ps"
proof (induction rule: update_ports_induct)
  case (Nil U w)
  then show ?case by simp
next
  case (New p ps U w)
  have "table (step_new s p w) s k \<noteq> None" using New.prems by simp
  then have "k \<notin> port_no ` set ps" using New.prems(2) by (rule New.IH)
  moreover have "k \<noteq> port_no p" using New.prems(1) New(3) by auto
  ultimately show ?case by auto
next
  case (Tracked p ps U w r')
  have "table (step_tracked r' p w) s k \<noteq> None" using Tracked.prems by simp
  moreover have "k \<notin> set (removeAll (port_no p) U)" using Tracked.prems by simp
  ultimately have "k \<notin> port_no ` set ps" by (rule Tracked.IH)
  moreover have "k \<noteq> port_no p" using Tracked.prems(2) Tracked(5) by auto
  ultimately show ?case by auto
qed

lemma update_ports_distinct:
  "update_ports s ps U w = Inr (U', w') \<Longrightarrow> ports_wf s w \<Longrightarrow> set U \<subseteq> dom (table w s) \<Longrightarrow>
   distinct (map port_no ps)"
proof (induction rule: update_ports_induct)
  case (Nil U w)
  then show ?case by simp
next
  case (New p ps U w)
  have "table (step_new s p w) s (port_no p) \<noteq> None" by simp
  moreover have "port_no p \<notin> set U" using New.prems New(3) by auto
  ultimately have "port_no p \<notin> port_no ` set ps"
    using update_ports_not_reported [OF New(4) New(2)] by blast
  moreover have "set U \<subseteq> dom (table (step_new s p w) s)" using New.prems by auto
  then have "distinct (map port_no ps)" by (rule New.IH)
  ultimately show ?case by simp
next
  case (Tracked p ps U w r')
  have "table (step_tracked r' p w) s (port_no p) \<noteq> None" using Tracked(3) by simp
  moreover have "port_no p \<notin> set (removeAll (port_no p) U)" by simp
  ultimately have "port_no p \<notin> port_no ` set ps"
    using update_ports_not_reported [OF Tracked(6) Tracked(2)] by blast
  moreover have "set (removeAll (port_no p) U) \<subseteq> dom (table (step_tracked r' p w) s)"
    using Tracked.prems by auto
  then have "distinct (map port_no ps)" by (rule Tracked.IH)
  ultimately show ?case by simp
qed

text \<open>The port objects after the loop.\<close>

lemma update_ports_obj_unreported:
  "update_ports s ps U w = Inr (U', w') \<Longrightarrow> ports_wf s w \<Longrightarrow> table w s k = Some r \<Longrightarrow>
   k \<notin> port_no ` set ps \<Longrightarrow> port_objs w' r = port_objs w r"
proof (induction rule: update_ports_induct)
  case (Nil U w)
  then show ?case by simp
next
  case (New p ps U w)
  have lt: "r < next_ref w" using New(1) New.prems(1) by (simp add: ports_wf_def)
  have "table (step_new s p w) s k = Some r" using New.prems New(3) by auto
  moreover have "k \<notin> port_no ` set ps" using New.prems by simp
  ultimately have "port_objs w' r = port_objs (step_new s p w) r" by (rule New.IH)
  with lt show ?case by simp
next
  case (Tracked p ps U w r')
  have ne: "r \<noteq> r'"
    using ports_wf_inj [OF Tracked(1), of k r "port_no p"] Tracked.prems Tracked(3) by auto
  have "table (step_tracked r' p w) s k = Some r" using Tracked.prems by simp
  moreover have "k \<notin> port_no ` set ps" using Tracked.prems by simp
  ultimately have "port_objs w' r = port_objs (step_tracked r' p w) r" by (rule Tracked.IH)
  with ne show ?case by simp
qed

lemma update_ports_obj_reported:
  "update_ports s ps U w = Inr (U', w') \<Longrightarrow> ports_wf s w \<Longrightarrow> p \<in> set ps \<Longrightarrow>
   table w s (port_no p) = Some r \<Longrightarrow>
   port_name (port_objs w r) = name p \<and>
   port_objs w' r =
     (port_objs w r)\<lparr>hwAddr := hw_addr p, port_config := config p, port_state := state p\<rparr>"
proof (induction rule: update_ports_induct)
  case (Nil U w)
  then show ?case by simp
next
  case (New q ps U w)
  have lt: "r < next_ref w" using New(1) New.prems(2) by (simp add: ports_wf_def)
  have "port_no q \<noteq> port_no p" using New(3) New.prems(2) by auto
  then have "p \<in> set ps" "table (step_new s q w) s (port_no p) = Some r"
    using New.prems by auto
  then have "port_name (port_objs (step_new s q w) r) = name p \<and>
    port_objs w' r = (port_objs (step_new s q w) r)
      \<lparr>hwAddr := hw_addr p, port_config := config p, port_state := state p\<rparr>"
    by (rule New.IH)
  with lt show ?case by simp
next
  case (Tracked q ps U w r')
  show ?case
  proof (cases "port_no q = port_no p")
    case True
    have tr: "table (step_tracked r' q w) s (port_no q) = Some r'" using Tracked(3) by simp
    then have "port_no q \<notin> port_no ` set ps"
      using update_ports_not_reported [OF Tracked(6) Tracked(2), of "port_no q"] by simp
    with True Tracked.prems(1) have pq: "p = q" by auto
    have "port_objs w' r' = port_objs (step_tracked r' q w) r'"
      using update_ports_obj_unreported [OF Tracked(6) Tracked(2) tr]
        \<open>port_no q \<notin> port_no ` set ps\<close> by simp
    with pq Tracked(3,4) Tracked.prems(2) show ?thesis by simp
  next
    case False
    then have ne: "r \<noteq> r'"
      using ports_wf_inj [OF Tracked(1), of "port_no p" r "port_no q"] Tracked.prems(2) Tracked(3)
      by auto
    have "p \<in> set ps" "table (step_tracked r' q w) s (port_no p) = Some r"
      using False Tracked.prems by auto
    then have "port_name (port_objs (step_tracked r' q w) r) = name p \<and>
      port_objs w' r = (port_objs (step_tracked r' q w) r)
        \<lparr>hwAddr := hw_addr p, port_config := config p, port_state := state p\<rparr>"
      by (rule Tracked.IH)
    with ne show ?thesis by simp
  qed
qed

lemma update_ports_obj_new:
  "update_ports s ps U w = Inr (U', w') \<Longrightarrow> ports_wf s w \<Longrightarrow> set U \<subseteq> dom (table w s) \<Longrightarrow>
   p \<in> set ps \<Longrightarrow> table w s (port_no p) = None \<Longrightarrow>
   \<exists>r. next_ref w \<le> r \<and> table w' s (port_no p) = Some r \<and> port_objs w' r = OpenFlowPort_init p"
proof (induction rule: update_ports_induct)
  case (Nil U w)
  then show ?case by simp
next
  case (New q ps U w)
  show ?case
  proof (cases "port_no q = port_no p")
    case True
    have tr: "table (step_new s q w) s (port_no q) = Some (next_ref w)" by simp
    have "port_no q \<notin> set U" using New.prems(1) New(3) by auto
    with tr have nr: "port_no q \<notin> port_no ` set ps"
      using update_ports_not_reported [OF New(4) New(2), of "port_no q"] by simp
    with True New.prems(2) have pq: "p = q" by auto
    have "port_objs w' (next_ref w) = port_objs (step_new s q w) (next_ref w)"
      using update_ports_obj_unreported [OF New(4) New(2) tr nr] .
    moreover have "table w' s (port_no q) = Some (next_ref w)"
      using update_ports_table_mono [OF New(4) New(2) tr] .
    ultimately show ?thesis using pq by auto
  next
    case False
    have "set U \<subseteq> dom (table (step_new s q w) s)" using New.prems(1) by auto
    moreover have "table (step_new s q w) s (port_no p) = None"
      using False New.prems(3) by simp
    moreover have "p \<in> set ps" using False New.prems(2) by auto
    ultimately have "\<exists>r. next_ref (step_new s q w) \<le> r \<and>
      table w' s (port_no p) = Some r \<and> port_objs w' r = OpenFlowPort_init p"
      using New.IH by blast
    then show ?thesis by auto
  qed
next
  case (Tracked q ps U w r')
  have "port_no q \<noteq> port_no p" using Tracked(3) Tracked.prems(3) by auto
  then have "p \<in> set ps" using Tracked.prems(2) by auto
  moreover have "set (removeAll (port_no q) U) \<subseteq> dom (table (step_tracked r' q w) s)"
    using Tracked.prems(1) by auto
  moreover have "table (step_tracked r' q w) s (port_no p) = None"
    using Tracked.prems(3) by simp
  ultimately have "\<exists>r. next_ref (step_tracked r' q w) \<le> r \<and>
      table w' s (port_no p) = Some r \<and> port_objs w' r = OpenFlowPort_init p"
    using Tracked.IH by blast
  then show ?case by simp
qed


text \<open>The first loop returns on a list of distinct numbers whose tracked names match.\<close>

lemma update_ports_total:
  "ports_wf s w \<Longrightarrow> distinct (map port_no ps) \<Longrightarrow>
   (\<forall>p\<in>set ps. \<forall>r. table w s (port_no p) = Some r \<longrightarrow>
      port_name (port_objs w r) = name p \<and> port_no p \<in> set U) \<Longrightarrow>
   \<exists>res. update_ports s ps U w = Inr res"
proof (induction ps arbitrary: U w)
  case Nil
  then show ?case by simp
next
  case (Cons p ps)
  have dist: "distinct (map port_no ps)" and fresh: "port_no p \<notin> port_no ` set ps"
    using Cons.prems(2) by auto
  show ?case
  proof (cases "table w s (port_no p)")
    case None
    have wf: "ports_wf s (step_new s p w)" using Cons.prems(1) None by (rule ports_wf_step_new)
    have "\<forall>q\<in>set ps. \<forall>r. table (step_new s p w) s (port_no q) = Some r \<longrightarrow>
        port_name (port_objs (step_new s p w) r) = name q \<and> port_no q \<in> set U"
    proof (intro ballI allI impI)
      fix q r assume q: "q \<in> set ps" and t: "table (step_new s p w) s (port_no q) = Some r"
      from q fresh have ne: "port_no q \<noteq> port_no p" by (metis imageI)
      with t have t': "table w s (port_no q) = Some r" by simp
      then have "r < next_ref w" using Cons.prems(1) by (simp add: ports_wf_def)
      with t' q Cons.prems(3) show
        "port_name (port_objs (step_new s p w) r) = name q \<and> port_no q \<in> set U"
        by simp
    qed
    from Cons.IH [OF wf dist this] None show ?thesis
      by (simp add: update_ports_Cons_Inr)
  next
    case (Some r')
    have wf: "ports_wf s (step_tracked r' p w)"
      using Cons.prems(1) by (rule ports_wf_step_tracked)
    have nm: "port_name (port_objs w r') = name p" "port_no p \<in> set U"
      using Cons.prems(3) Some by auto
    have num: "number (port_objs w r') = port_no p"
      using Cons.prems(1) Some by (simp add: ports_wf_def)
    have "\<forall>q\<in>set ps. \<forall>r. table (step_tracked r' p w) s (port_no q) = Some r \<longrightarrow>
        port_name (port_objs (step_tracked r' p w) r) = name q \<and>
        port_no q \<in> set (removeAll (port_no p) U)"
    proof (intro ballI allI impI)
      fix q r assume q: "q \<in> set ps"
        and t: "table (step_tracked r' p w) s (port_no q) = Some r"
      from q fresh have ne: "port_no q \<noteq> port_no p" by (metis imageI)
      from t have t': "table w s (port_no q) = Some r" by simp
      have "r \<noteq> r'"
        using ports_wf_inj [OF Cons.prems(1), of "port_no q" r "port_no p"] t' Some ne by auto
      with t' q ne Cons.prems(3) show
        "port_name (port_objs (step_tracked r' p w) r) = name q \<and>
         port_no q \<in> set (removeAll (port_no p) U)"
        by simp
    qed
    from Cons.IH [OF wf dist this] Some nm num show ?thesis
      by (simp add: update_ports_Cons_Inr)
  qed
qed

lemma table_step_remove [simp]:
  "table (step_remove s k r w) s k' = (if k' = k then None else table w s k')"
  by (simp add: table_def step_remove_def set_port_def set_switch_def delete_conv')

lemma port_objs_step_remove [simp]:
  "port_objs (step_remove s k r w) = (port_objs w)(r := (port_objs w r)\<lparr>exists := False\<rparr>)"
  by (simp add: step_remove_def set_port_def set_switch_def)

lemma next_ref_step_remove [simp]: "next_ref (step_remove s k r w) = next_ref w"
  by (simp add: step_remove_def set_port_def set_switch_def)

lemma ports_wf_step_remove: "ports_wf s w \<Longrightarrow> ports_wf s (step_remove s k r w)"
  unfolding ports_wf_def
  by (auto simp: distinct_delete split: if_splits)
     (simp add: step_remove_def set_port_def set_switch_def distinct_delete)

declare remove_untouched.simps(2) [simp del]

lemma remove_untouched_Cons:
  "remove_untouched s (k # ks) w =
     (case table w s k of None \<Rightarrow> Inl (KeyError, w)
      | Some r \<Rightarrow> remove_untouched s ks (step_remove s k r w))"
  by (simp add: remove_untouched.simps(2) table_def step_remove_def split: option.splits)

lemma remove_untouched_spec:
  "ports_wf s w \<Longrightarrow> distinct ks \<Longrightarrow> set ks \<subseteq> dom (table w s) \<Longrightarrow>
   \<exists>w'. remove_untouched s ks w = Inr w' \<and> ports_wf s w' \<and> next_ref w' = next_ref w \<and>
        (\<forall>k. table w' s k = (if k \<in> set ks then None else table w s k)) \<and>
        (\<forall>k r. table w s k = Some r \<longrightarrow>
           port_objs w' r = (if k \<in> set ks then (port_objs w r)\<lparr>exists := False\<rparr>
                             else port_objs w r)) \<and>
        (\<forall>r. (\<forall>k. table w s k \<noteq> Some r) \<longrightarrow> port_objs w' r = port_objs w r)"
proof (induction ks arbitrary: w)
  case Nil
  then show ?case by simp
next
  case (Cons k ks)
  from Cons.prems(3) obtain r where tr: "table w s k = Some r" by auto
  let ?w1 = "step_remove s k r w"
  have wf: "ports_wf s ?w1" using Cons.prems(1) by (rule ports_wf_step_remove)
  have d: "distinct ks" and nk: "k \<notin> set ks" using Cons.prems(2) by auto
  have sub: "set ks \<subseteq> dom (table ?w1 s)" using Cons.prems(3) nk by (auto simp: dom_def)
  from Cons.IH [OF wf d sub] obtain w' where
    run: "remove_untouched s ks ?w1 = Inr w'" and wf': "ports_wf s w'"
    and nr: "next_ref w' = next_ref ?w1"
    and tab: "\<And>k'. table w' s k' = (if k' \<in> set ks then None else table ?w1 s k')"
    and obj: "\<And>k' r'. table ?w1 s k' = Some r' \<Longrightarrow>
           port_objs w' r' = (if k' \<in> set ks then (port_objs ?w1 r')\<lparr>exists := False\<rparr>
                              else port_objs ?w1 r')"
    and out: "\<And>r'. (\<forall>k'. table ?w1 s k' \<noteq> Some r') \<Longrightarrow> port_objs w' r' = port_objs ?w1 r'"
    by blast
  have gone: "table ?w1 s k' \<noteq> Some r" for k'
    using ports_wf_inj [OF Cons.prems(1) tr, of k'] by auto
  have A: "port_objs w' r' =
          (if k' \<in> set (k # ks) then (port_objs w r')\<lparr>exists := False\<rparr> else port_objs w r')"
    if t: "table w s k' = Some r'" for k' r'
  proof (cases "k' = k")
    case True
    with t tr have rr: "r' = r" by simp
    have "port_objs w' r = port_objs ?w1 r" using gone by (intro out) simp
    with rr True show ?thesis by simp
  next
    case False
    with t have "table ?w1 s k' = Some r'" by simp
    from obj [OF this] have "port_objs w' r' =
      (if k' \<in> set ks then (port_objs ?w1 r')\<lparr>exists := False\<rparr> else port_objs ?w1 r')" .
    moreover have "r' \<noteq> r"
      using ports_wf_inj [OF Cons.prems(1), of k' r' k] t tr False by auto
    ultimately show ?thesis using False by simp
  qed
  have B: "port_objs w' r' = port_objs w r'" if n: "\<forall>k'. table w s k' \<noteq> Some r'" for r'
  proof -
    have "\<forall>k'. table ?w1 s k' \<noteq> Some r'" using n by simp
    then have "port_objs w' r' = port_objs ?w1 r'" by (rule out)
    moreover have "r' \<noteq> r" using n tr by auto
    ultimately show ?thesis by simp
  qed
  have C: "table w' s k' = (if k' \<in> set (k # ks) then None else table w s k')" for k'
    using tab [of k'] by simp
  show ?case
    using run wf' nr A B C tr by (simp add: remove_untouched_Cons)
qed


lemma ports_frame_refl [simp]: "ports_frame s w w"
  by (simp add: ports_frame_def)

lemma ports_frame_trans:
  "ports_frame s w w1 \<Longrightarrow> ports_frame s w1 w2 \<Longrightarrow> ports_frame s w w2"
  unfolding ports_frame_def
  apply (intro conjI)
            apply simp_all
   apply (metis (no_types, lifting) OpenFlowSwitch.surjective OpenFlowSwitch.update_convs(2))
  done

lemma ports_frame_step_tracked: "ports_frame s w (step_tracked r p w)"
  by (simp add: ports_frame_def step_tracked_def set_port_def)

lemma ports_frame_step_new: "ports_frame s w (step_new s p w)"
  by (simp add: ports_frame_def step_new_def set_port_def set_switch_def)

lemma ports_frame_step_remove: "ports_frame s w (step_remove s k r w)"
  by (simp add: ports_frame_def step_remove_def set_port_def set_switch_def)

lemma update_ports_Cons:
  "update_ports s (p # ps) U w =
     (case table w s (port_no p) of
        Some r \<Rightarrow>
          if port_name (port_objs w r) \<noteq> name p \<or> number (port_objs w r) \<noteq> port_no p
          then Inl (AssertionError, w)
          else if port_no p \<in> set U
          then update_ports s ps (removeAll (port_no p) U) (step_tracked r p w)
          else Inl (KeyError, step_tracked r p w)
      | None \<Rightarrow> update_ports s ps U (step_new s p w))"
  by (simp add: update_ports.simps(2) table_def step_tracked_def step_new_def
        OpenFlowPort_update_def split: option.splits)

lemma update_ports_frame: "ports_frame s w (loop_world (update_ports s ps U w))"
proof (induction ps arbitrary: U w)
  case Nil
  then show ?case by (simp add: loop_world_def)
next
  case (Cons p ps)
  show ?case
  proof (cases "table w s (port_no p)")
    case None
    then show ?thesis
      using ports_frame_trans [OF ports_frame_step_new Cons.IH]
      by (simp add: update_ports_Cons)
  next
    case (Some r)
    then show ?thesis
      using ports_frame_trans [OF ports_frame_step_tracked Cons.IH]
      by (simp add: update_ports_Cons loop_world_def ports_frame_step_tracked)
  qed
qed

lemma remove_untouched_frame: "ports_frame s w (state_of (remove_untouched s ks w))"
proof (induction ks arbitrary: w)
  case Nil
  then show ?case by (simp add: state_of_def)
next
  case (Cons k ks)
  show ?case
  proof (cases "table w s k")
    case None
    then show ?thesis by (simp add: remove_untouched_Cons state_of_def)
  next
    case (Some r)
    then show ?thesis
      using ports_frame_trans [OF ports_frame_step_remove Cons.IH]
      by (simp add: remove_untouched_Cons)
  qed
qed

lemma table_set_switch_ports [simp]:
  "ports sw = ports (switches w s) \<Longrightarrow> table (set_switch s sw w) s = table w s"
  by (simp add: table_def set_switch_def)

lemma head_port_objs [simp]: "port_objs (setConnection_head s c w) = port_objs w"
  by (simp add: setConnection_head_def Let_def removeListeners_def cancel_timer_def
        new_Timer_def set_switch_def split: option.splits)

lemma head_ports [simp]:
  "ports (switches (setConnection_head s c w) s') = ports (switches w s')"
  by (simp add: setConnection_head_def Let_def removeListeners_def cancel_timer_def
        new_Timer_def set_switch_def split: option.splits)

lemma head_table [simp]: "table (setConnection_head s c w) s' = table w s'"
  by (simp add: table_def)

lemma head_next_ref: "next_ref w \<le> next_ref (setConnection_head s c w)"
  by (simp add: setConnection_head_def Let_def removeListeners_def cancel_timer_def
        new_Timer_def set_switch_def split: option.splits)

lemma head_next_ref_Some [simp]: "next_ref (setConnection_head s (Some c) w) = next_ref w"
  by (simp add: setConnection_head_def Let_def removeListeners_def cancel_timer_def
        new_Timer_def set_switch_def split: option.splits)

lemma head_ports_wf: "ports_wf s' w \<Longrightarrow> ports_wf s' (setConnection_head s c w)"
  using head_next_ref [of w s c] by (fastforce simp: ports_wf_def)

lemma listen_port_objs [simp]: "port_objs (listenTo_con s c w) = port_objs w"
  by (simp add: listenTo_con_def set_switch_def)

lemma listen_ports [simp]: "ports (switches (listenTo_con s c w) s') = ports (switches w s')"
  by (simp add: listenTo_con_def set_switch_def)

lemma listen_table [simp]: "table (listenTo_con s c w) s' = table w s'"
  by (simp add: table_def)

lemma listen_next_ref [simp]: "next_ref (listenTo_con s c w) = Suc (next_ref w)"
  by (simp add: listenTo_con_def set_switch_def)

lemma listen_ports_wf: "ports_wf s' w \<Longrightarrow> ports_wf s' (listenTo_con s c w)"
  by (fastforce simp: ports_wf_def)

text \<open>The port update as a whole, when it returns.\<close>

lemma setConnection_ports_Inr:
  assumes run: "setConnection_ports s f w = Inr w'" and wf: "ports_wf s w"
  shows "ports_wf s w'"
    and "distinct (map port_no (ofp_ports f))"
    and "\<And>k r. table w s k = Some r \<Longrightarrow> k \<notin> port_no ` set (ofp_ports f) \<Longrightarrow>
           table w' s k = None \<and> port_objs w' r = (port_objs w r)\<lparr>exists := False\<rparr>"
    and "\<And>p r. p \<in> set (ofp_ports f) \<Longrightarrow> table w s (port_no p) = Some r \<Longrightarrow>
           port_name (port_objs w r) = name p \<and> table w' s (port_no p) = Some r \<and>
           port_objs w' r =
             (port_objs w r)\<lparr>hwAddr := hw_addr p, port_config := config p, port_state := state p\<rparr>"
    and "\<And>p. p \<in> set (ofp_ports f) \<Longrightarrow> table w s (port_no p) = None \<Longrightarrow>
           \<exists>r. next_ref w \<le> r \<and> table w' s (port_no p) = Some r \<and>
               port_objs w' r = OpenFlowPort_init p"
    and "dom (table w' s) = port_no ` set (ofp_ports f)"
proof -
  define w1 where "w1 = set_switch s ((switches w s)\<lparr>capabilities := ofp_capabilities f\<rparr>) w"
  define U where "U = map fst (ports (switches w1 s))"
  have t1 [simp]: "table w1 s = table w s" by (simp add: w1_def)
  have o1 [simp]: "port_objs w1 = port_objs w" by (simp add: w1_def set_switch_def)
  have n1 [simp]: "next_ref w1 = next_ref w" by (simp add: w1_def set_switch_def)
  have p1: "ports (switches w1 s) = ports (switches w s)" by (simp add: w1_def set_switch_def)
  have wf1: "ports_wf s w1" using wf by (simp add: ports_wf_def p1)
  have Udom: "set U = dom (table w s)"
    by (simp add: U_def p1 table_def dom_map_of_conv_image_fst)
  have Ud: "distinct U" using wf by (simp add: U_def p1 ports_wf_def)
  from run obtain U' w2 where
    run1: "update_ports s (ofp_ports f) U w1 = Inr (U', w2)"
    and run2: "remove_untouched s U' w2 = Inr w'"
    by (auto simp: setConnection_ports_def Let_def w1_def U_def split: sum.splits)
  have sub: "set U \<subseteq> dom (table w1 s)" using Udom by simp
  have wf2: "ports_wf s w2" using run1 wf1 by (rule update_ports_wf)
  have U': "set U' = dom (table w s) - port_no ` set (ofp_ports f)"
    using update_ports_untouched [OF run1 wf1 sub] Udom by simp
  have U'd: "distinct U'" using run1 wf1 Ud by (rule update_ports_untouched_distinct)
  have mono: "table w2 s k = Some r" if "table w s k = Some r" for k r
    using update_ports_table_mono [OF run1 wf1] that by simp
  have U'sub: "set U' \<subseteq> dom (table w2 s)" using U' mono by auto
  from remove_untouched_spec [OF wf2 U'd U'sub] run2 have
    wf3: "ports_wf s w'"
    and tab: "\<And>k. table w' s k = (if k \<in> set U' then None else table w2 s k)"
    and obj: "\<And>k r. table w2 s k = Some r \<Longrightarrow>
           port_objs w' r = (if k \<in> set U' then (port_objs w2 r)\<lparr>exists := False\<rparr>
                             else port_objs w2 r)"
    by auto
  show "ports_wf s w'" by (rule wf3)
  show "distinct (map port_no (ofp_ports f))"
    using run1 wf1 sub by (rule update_ports_distinct)
  show "table w' s k = None \<and> port_objs w' r = (port_objs w r)\<lparr>exists := False\<rparr>"
    if t: "table w s k = Some r" and n: "k \<notin> port_no ` set (ofp_ports f)" for k r
  proof -
    have "k \<in> set U'" using U' t n by auto
    moreover have "port_objs w2 r = port_objs w r"
      using update_ports_obj_unreported [OF run1 wf1 _ n, of r] t by simp
    ultimately show ?thesis using tab [of k] obj [OF mono [OF t]] by simp
  qed
  show "port_name (port_objs w r) = name p \<and> table w' s (port_no p) = Some r \<and>
        port_objs w' r =
          (port_objs w r)\<lparr>hwAddr := hw_addr p, port_config := config p, port_state := state p\<rparr>"
    if p: "p \<in> set (ofp_ports f)" and t: "table w s (port_no p) = Some r" for p r
  proof -
    have "port_no p \<notin> set U'" using U' p by auto
    moreover have "port_name (port_objs w1 r) = name p \<and> port_objs w2 r =
      (port_objs w1 r)\<lparr>hwAddr := hw_addr p, port_config := config p, port_state := state p\<rparr>"
      using update_ports_obj_reported [OF run1 wf1 p, of r] t by simp
    ultimately show ?thesis using tab [of "port_no p"] obj [OF mono [OF t]] mono [OF t] by simp
  qed
  show "\<exists>r. next_ref w \<le> r \<and> table w' s (port_no p) = Some r \<and>
            port_objs w' r = OpenFlowPort_init p"
    if p: "p \<in> set (ofp_ports f)" and t: "table w s (port_no p) = None" for p
  proof -
    have nU: "port_no p \<notin> set U'" using U' p by auto
    from update_ports_obj_new [OF run1 wf1 sub p] t obtain r where
      r: "next_ref w \<le> r" "table w2 s (port_no p) = Some r" "port_objs w2 r = OpenFlowPort_init p"
      by auto
    with nU tab [of "port_no p"] obj [OF r(2)] show ?thesis by auto
  qed
  show "dom (table w' s) = port_no ` set (ofp_ports f)"
  proof (intro set_eqI iffI)
    fix k assume "k \<in> dom (table w' s)"
    then obtain r where r: "table w' s k = Some r" by auto
    with tab [of k] have k: "k \<notin> set U'" "table w2 s k = Some r" by (auto split: if_splits)
    show "k \<in> port_no ` set (ofp_ports f)"
    proof (cases "table w s k")
      case None
      then show ?thesis using update_ports_table_new [OF run1 wf1 _ k(2)] by simp
    next
      case (Some r')
      then show ?thesis using k(1) U' by auto
    qed
  next
    fix k assume "k \<in> port_no ` set (ofp_ports f)"
    then obtain p where p: "p \<in> set (ofp_ports f)" "k = port_no p" by auto
    then have "k \<notin> set U'" using U' by auto
    moreover have "table w2 s k \<noteq> None"
      using update_ports_reported_tracked [OF run1 wf1 p(1)] p(2) by simp
    ultimately show "k \<in> dom (table w' s)" using tab [of k] by auto
  qed
qed

lemma setConnection_ports_total:
  assumes wf: "ports_wf s w" and d: "distinct (map port_no (ofp_ports f))"
    and nm: "\<forall>p\<in>set (ofp_ports f). \<forall>r. table w s (port_no p) = Some r \<longrightarrow>
               port_name (port_objs w r) = name p"
  shows "\<exists>w'. setConnection_ports s f w = Inr w'"
proof -
  define w1 where "w1 = set_switch s ((switches w s)\<lparr>capabilities := ofp_capabilities f\<rparr>) w"
  define U where "U = map fst (ports (switches w1 s))"
  have t1 [simp]: "table w1 s = table w s" by (simp add: w1_def)
  have o1 [simp]: "port_objs w1 = port_objs w" by (simp add: w1_def set_switch_def)
  have p1: "ports (switches w1 s) = ports (switches w s)" by (simp add: w1_def set_switch_def)
  have n1 [simp]: "next_ref w1 = next_ref w" by (simp add: w1_def set_switch_def)
  have wf1: "ports_wf s w1" using wf by (simp add: ports_wf_def p1)
  have Udom: "set U = dom (table w s)"
    by (simp add: U_def p1 table_def dom_map_of_conv_image_fst)
  have Ud: "distinct U" using wf by (simp add: U_def p1 ports_wf_def)
  have "\<forall>p\<in>set (ofp_ports f). \<forall>r. table w1 s (port_no p) = Some r \<longrightarrow>
      port_name (port_objs w1 r) = name p \<and> port_no p \<in> set U"
    using nm Udom by auto
  from update_ports_total [OF wf1 d this] obtain U' w2 where
    run1: "update_ports s (ofp_ports f) U w1 = Inr (U', w2)" by auto
  have sub: "set U \<subseteq> dom (table w1 s)" using Udom by simp
  have wf2: "ports_wf s w2" using run1 wf1 by (rule update_ports_wf)
  have U': "set U' = dom (table w s) - port_no ` set (ofp_ports f)"
    using update_ports_untouched [OF run1 wf1 sub] Udom by simp
  have U'd: "distinct U'" using run1 wf1 Ud by (rule update_ports_untouched_distinct)
  have mono: "table w2 s k = Some r" if "table w s k = Some r" for k r
    using update_ports_table_mono [OF run1 wf1] that by simp
  have U'sub: "set U' \<subseteq> dom (table w2 s)" using U' mono by auto
  from remove_untouched_spec [OF wf2 U'd U'sub] obtain w' where
    "remove_untouched s U' w2 = Inr w'" by auto
  with run1 show ?thesis
    by (simp add: setConnection_ports_def Let_def w1_def [symmetric] U_def [symmetric])
qed


lemma setConnection_Some_Inr:
  "setConnection s c (Some f) w = Inr w' \<longleftrightarrow>
     (\<exists>w1. setConnection_ports s f (setConnection_head s c w) = Inr w1 \<and>
           w' = (case c of None \<Rightarrow> w1 | Some x \<Rightarrow> listenTo_con s x w1))"
  by (auto simp: setConnection_def split: sum.splits option.splits)

lemma full_mode_total:
  assumes "ports_wf s w" and "distinct (map port_no (ofp_ports f))"
    and "\<forall>p\<in>set (ofp_ports f). \<forall>r. table w s (port_no p) = Some r \<longrightarrow>
           port_name (port_objs w r) = name p"
  shows "\<exists>w'. setConnection s c (Some f) w = Inr w'"
proof -
  have "\<exists>w1. setConnection_ports s f (setConnection_head s c w) = Inr w1"
    using assms by (intro setConnection_ports_total head_ports_wf) simp_all
  then show ?thesis by (auto simp: setConnection_Some_Inr)
qed

lemma full_mode_Inr:
  assumes run: "setConnection s c (Some f) w = Inr w'" and wf: "ports_wf s w"
  shows "ports_wf s w'"
    and "distinct (map port_no (ofp_ports f))"
    and "\<And>k r. table w s k = Some r \<Longrightarrow> k \<notin> port_no ` set (ofp_ports f) \<Longrightarrow>
           table w' s k = None \<and> port_objs w' r = (port_objs w r)\<lparr>exists := False\<rparr>"
    and "\<And>p r. p \<in> set (ofp_ports f) \<Longrightarrow> table w s (port_no p) = Some r \<Longrightarrow>
           port_name (port_objs w r) = name p \<and> table w' s (port_no p) = Some r \<and>
           port_objs w' r =
             (port_objs w r)\<lparr>hwAddr := hw_addr p, port_config := config p, port_state := state p\<rparr>"
    and "\<And>p. p \<in> set (ofp_ports f) \<Longrightarrow> table w s (port_no p) = None \<Longrightarrow>
           \<exists>r. next_ref w \<le> r \<and> table w' s (port_no p) = Some r \<and>
               port_objs w' r = OpenFlowPort_init p"
    and "dom (table w' s) = port_no ` set (ofp_ports f)"
proof -
  let ?h = "setConnection_head s c w"
  from run obtain w1 where
    run1: "setConnection_ports s f ?h = Inr w1"
    and w': "w' = (case c of None \<Rightarrow> w1 | Some x \<Rightarrow> listenTo_con s x w1)"
    by (auto simp: setConnection_Some_Inr)
  have wfh: "ports_wf s ?h" using wf by (rule head_ports_wf)
  have t [simp]: "table w' s = table w1 s" and o [simp]: "port_objs w' = port_objs w1"
    by (simp_all add: w' split: option.splits)
  note R = setConnection_ports_Inr [OF run1 wfh]
  show "ports_wf s w'" using R(1) by (simp add: w' listen_ports_wf split: option.splits)
  show "distinct (map port_no (ofp_ports f))" by (rule R(2))
  show "table w' s k = None \<and> port_objs w' r = (port_objs w r)\<lparr>exists := False\<rparr>"
    if "table w s k = Some r" "k \<notin> port_no ` set (ofp_ports f)" for k r
    using R(3) [of k r] that by simp
  show "port_name (port_objs w r) = name p \<and> table w' s (port_no p) = Some r \<and>
        port_objs w' r =
          (port_objs w r)\<lparr>hwAddr := hw_addr p, port_config := config p, port_state := state p\<rparr>"
    if "p \<in> set (ofp_ports f)" "table w s (port_no p) = Some r" for p r
    using R(4) [of p r] that by simp
  show "\<exists>r. next_ref w \<le> r \<and> table w' s (port_no p) = Some r \<and>
            port_objs w' r = OpenFlowPort_init p"
    if "p \<in> set (ofp_ports f)" "table w s (port_no p) = None" for p
  proof -
    from R(5) [of p] that obtain r where "next_ref ?h \<le> r" "table w1 s (port_no p) = Some r"
      "port_objs w1 r = OpenFlowPort_init p" by auto
    then show ?thesis using head_next_ref [of w s c] by (intro exI [of _ r]) simp
  qed
  show "dom (table w' s) = port_no ` set (ofp_ports f)" using R(6) by simp
qed

section \<open>The example worlds, evaluated\<close>

lemmas model_defs =
  OpenFlowTopology_init_def resolveComponents_def new_adaptor_def empty_world_def
  wanted_components_def hasComponent_def log_append_def Let_def
  handle_openflow_ConnectionUp_def getEntityByID_def setConnection_def setConnection_head_def
  setConnection_ports_def set_switch_def set_port_def OpenFlowSwitch_init_def
  OpenFlowPort_init_def OpenFlowPort_update_def listenTo_con_def topology_addEntity_def
  state_of_def removeListeners_def cancel_timer_def new_Timer_def update_ports.simps
  remove_untouched.simps OFPP_CONTROLLER_def

lemmas example_defs =
  connected_world_def ready_world_def features1_def features2_def features_renamed_def eth_def

lemma connected_ports: "ports (switches connected_world 0) = [(1, 1), (2, 2)]"
  by (simp add: example_defs model_defs)

lemma connected_next_ref: "next_ref connected_world = 4"
  by (simp add: example_defs model_defs)

lemma connected_port_objs:
  "port_objs connected_world (Suc 0) = OpenFlowPort_init (eth 1 ''eth0'')"
  "port_objs connected_world 2 = OpenFlowPort_init (eth 2 ''eth1'')"
  by (simp_all add: example_defs model_defs)

lemma connected_table:
  "table connected_world 0 k = (if k = 1 then Some 1 else if k = 2 then Some 2 else None)"
  by (simp add: table_def connected_ports)

lemma connected_ports_wf: "ports_wf 0 connected_world"
  by (simp add: ports_wf_def connected_table connected_ports connected_next_ref
        connected_port_objs OpenFlowPort_init_def eth_def)

section \<open>Full-mode port reconciliation\<close>

text \<open>
  C4, as amended. For a switch whose port table is well formed and a reported port list
  with distinct port numbers in which every port number that is already tracked comes
  under the name stored for it, \<open>_setConnection\<close> returns, and the end state is exactly
  this: a tracked number that is not reported has its port object marked not existing
  and is gone from the table; a reported number that is tracked keeps its port object,
  with hardware address, config and state updated in that object; a reported number
  that is not tracked is bound to a port object that was not allocated before, built
  from the descriptor; the table has the reported numbers and no others.
\<close>

theorem full_mode_end_state:
  assumes "ports_wf s w" and "distinct (map port_no (ofp_ports f))"
    and "\<forall>p\<in>set (ofp_ports f). \<forall>r. table w s (port_no p) = Some r \<longrightarrow>
           port_name (port_objs w r) = name p"
  shows "\<exists>w'. setConnection s c (Some f) w = Inr w' \<and>
     (\<forall>k r. table w s k = Some r \<longrightarrow> k \<notin> port_no ` set (ofp_ports f) \<longrightarrow>
        table w' s k = None \<and> port_objs w' r = (port_objs w r)\<lparr>exists := False\<rparr>) \<and>
     (\<forall>p\<in>set (ofp_ports f). \<forall>r. table w s (port_no p) = Some r \<longrightarrow>
        table w' s (port_no p) = Some r \<and>
        port_objs w' r =
          (port_objs w r)\<lparr>hwAddr := hw_addr p, port_config := config p, port_state := state p\<rparr>) \<and>
     (\<forall>p\<in>set (ofp_ports f). table w s (port_no p) = None \<longrightarrow>
        (\<exists>r. next_ref w \<le> r \<and> table w' s (port_no p) = Some r \<and>
             port_objs w' r = OpenFlowPort_init p)) \<and>
     dom (table w' s) = port_no ` set (ofp_ports f)"
proof -
  from full_mode_total [OF assms] obtain w' where run: "setConnection s c (Some f) w = Inr w'"
    by blast
  note R = full_mode_Inr [OF run assms(1)]
  show ?thesis
    using run R(3) R(4) R(5) R(6) by (intro exI [of _ w']) blast
qed

theorem full_mode_end_state_witness:
  "ports_wf 0 connected_world \<and> distinct (map port_no (ofp_ports features2)) \<and>
   (\<exists>w'. setConnection 0 (Some 11) (Some features2) connected_world = Inr w' \<and>
      table w' 0 2 = None \<and> exists (port_objs w' 2) = False \<and>
      table w' 0 1 = Some 1 \<and> dom (table w' 0) = {1, 3})"
proof -
  have h1: "ports_wf 0 connected_world" by (rule connected_ports_wf)
  have h2: "distinct (map port_no (ofp_ports features2))" by (simp add: features2_def eth_def)
  have h3: "\<forall>p\<in>set (ofp_ports features2). \<forall>r. table connected_world 0 (port_no p) = Some r \<longrightarrow>
      port_name (port_objs connected_world r) = name p"
    by (simp add: features2_def eth_def connected_table connected_port_objs OpenFlowPort_init_def)
  from full_mode_end_state [OF h1 h2 h3, of "Some 11"] obtain w' where
    run: "setConnection 0 (Some 11) (Some features2) connected_world = Inr w'"
    and gone: "\<forall>k r. table connected_world 0 k = Some r \<longrightarrow>
        k \<notin> port_no ` set (ofp_ports features2) \<longrightarrow>
        table w' 0 k = None \<and> port_objs w' r = (port_objs connected_world r)\<lparr>exists := False\<rparr>"
    and kept: "\<forall>p\<in>set (ofp_ports features2). \<forall>r.
        table connected_world 0 (port_no p) = Some r \<longrightarrow> table w' 0 (port_no p) = Some r \<and>
        port_objs w' r = (port_objs connected_world r)
          \<lparr>hwAddr := hw_addr p, port_config := config p, port_state := state p\<rparr>"
    and dom: "dom (table w' 0) = port_no ` set (ofp_ports features2)"
    by blast
  have "table w' 0 2 = None \<and> port_objs w' 2 = (port_objs connected_world 2)\<lparr>exists := False\<rparr>"
    using gone [rule_format, of 2 2] by (simp add: connected_table features2_def eth_def)
  moreover have "table w' 0 1 = Some 1"
    using kept [rule_format, of "eth 1 ''eth0''" 1]
    by (simp add: connected_table features2_def eth_def)
  moreover have "dom (table w' 0) = {1, 3}" using dom by (simp add: features2_def eth_def)
  ultimately show ?thesis using h1 h2 run by auto
qed

text \<open>
  C4 as stated fails: the switch tracks port 1 under the name eth0 and port 2; a
  handshake that reports port 1 under the name eth9, and no port 2, raises at the
  assertion of \<open>_update\<close>. Port 2 stays in the table, marked existing, and port 1 keeps
  its hardware address.
\<close>

theorem full_mode_renamed_port_counterexample:
  "isl renamed_run \<and> fst (projl renamed_run) = AssertionError \<and>
   table (state_of renamed_run) 0 2 = Some 2 \<and> exists (port_objs (state_of renamed_run) 2) \<and>
   hwAddr (port_objs (state_of renamed_run) 1) = 101 \<and> hw_addr (eth 1 ''eth9'') = 101"
  by (simp add: renamed_run_def table_def example_defs model_defs)

text \<open>Reapplying a port list that has just been applied.\<close>

lemma set_port_same [simp]: "set_port r (port_objs w r) w = w"
  by (simp add: set_port_def)

lemma update_ports_settled:
  "distinct (map port_no ps) \<Longrightarrow> port_no ` set ps \<subseteq> set U \<Longrightarrow>
   (\<forall>p\<in>set ps. \<exists>r. table w s (port_no p) = Some r \<and>
      OpenFlowPort_update (port_objs w r) p = Inr (port_objs w r)) \<Longrightarrow>
   \<exists>U'. update_ports s ps U w = Inr (U', w) \<and> set U' = set U - port_no ` set ps"
proof (induction ps arbitrary: U)
  case Nil
  then show ?case by simp
next
  case (Cons p ps)
  from Cons.prems(3) obtain r where r: "table w s (port_no p) = Some r"
    "OpenFlowPort_update (port_objs w r) p = Inr (port_objs w r)" by auto
  have "port_no p \<notin> port_no ` set ps" using Cons.prems(1) by simp
  then have "\<forall>q\<in>set ps. port_no q \<noteq> port_no p" by (metis imageI)
  then have "port_no ` set ps \<subseteq> set (removeAll (port_no p) U)"
    using Cons.prems(2) by auto
  with Cons.IH [of "removeAll (port_no p) U"] Cons.prems obtain U' where
    "update_ports s ps (removeAll (port_no p) U) w = Inr (U', w)"
    "set U' = set (removeAll (port_no p) U) - port_no ` set ps" by auto
  with r Cons.prems(2) show ?case
    by (auto simp: update_ports.simps(2) table_def)
qed

text \<open>
  C9. Full-mode reconciliation is idempotent: when \<open>_setConnection\<close> has returned on a
  port list, running it again on the same list returns, and the port table, the port
  objects and all their fields are the ones the first run left.
\<close>

theorem full_mode_idempotent:
  assumes wf: "ports_wf s w" and run: "setConnection s c (Some f) w = Inr w1"
  shows "\<exists>w2. setConnection s c' (Some f) w1 = Inr w2 \<and>
               ports (switches w2 s) = ports (switches w1 s) \<and> port_objs w2 = port_objs w1"
proof -
  note R = full_mode_Inr [OF run wf]
  let ?h = "setConnection_head s c' w1"
  define h1 where "h1 = set_switch s ((switches ?h s)\<lparr>capabilities := ofp_capabilities f\<rparr>) ?h"
  define U where "U = map fst (ports (switches h1 s))"
  have ph: "ports (switches h1 s) = ports (switches w1 s)" by (simp add: h1_def set_switch_def)
  have th [simp]: "table h1 s = table w1 s" by (simp add: table_def ph)
  have oh [simp]: "port_objs h1 = port_objs w1" by (simp add: h1_def set_switch_def)
  have Udom: "set U = port_no ` set (ofp_ports f)"
    using R(6) by (simp add: U_def ph table_def dom_map_of_conv_image_fst)
  have settled: "\<exists>r. table h1 s (port_no p) = Some r \<and>
      OpenFlowPort_update (port_objs h1 r) p = Inr (port_objs h1 r)"
    if p: "p \<in> set (ofp_ports f)" for p
  proof (cases "table w s (port_no p)")
    case None
    from R(5) [OF p None] obtain r where "table w1 s (port_no p) = Some r"
      "port_objs w1 r = OpenFlowPort_init p" by auto
    then show ?thesis by (auto simp: OpenFlowPort_update_def OpenFlowPort_init_def)
  next
    case (Some r)
    from R(4) [OF p Some] have "port_name (port_objs w r) = name p"
      "table w1 s (port_no p) = Some r"
      "port_objs w1 r =
         (port_objs w r)\<lparr>hwAddr := hw_addr p, port_config := config p, port_state := state p\<rparr>"
      by auto
    moreover have "number (port_objs w r) = port_no p" using wf Some by (simp add: ports_wf_def)
    ultimately show ?thesis by (auto simp: OpenFlowPort_update_def)
  qed
  from update_ports_settled [OF R(2), of U h1 s] Udom settled obtain U' where
    U': "update_ports s (ofp_ports f) U h1 = Inr (U', h1)" "set U' = {}" by auto
  then have "setConnection_ports s f ?h = Inr h1"
    by (simp add: setConnection_ports_def Let_def h1_def [symmetric] U_def [symmetric])
  then show ?thesis
    by (auto simp: setConnection_def ph split: option.splits)
qed

theorem full_mode_idempotent_witness:
  "ports_wf 0 connected_world \<and>
   (\<exists>w1. setConnection 0 (Some 11) (Some features2) connected_world = Inr w1 \<and>
      (\<exists>w2. setConnection 0 (Some 12) (Some features2) w1 = Inr w2 \<and>
         ports (switches w2 0) = ports (switches w1 0) \<and> port_objs w2 = port_objs w1))"
proof -
  have h1: "ports_wf 0 connected_world" by (rule connected_ports_wf)
  have "\<exists>w1. setConnection 0 (Some 11) (Some features2) connected_world = Inr w1"
    using h1 by (intro full_mode_total)
      (simp_all add: features2_def eth_def connected_table connected_port_objs
         OpenFlowPort_init_def)
  then obtain w1 where h2: "setConnection 0 (Some 11) (Some features2) connected_world = Inr w1"
    by blast
  from full_mode_idempotent [OF h1 h2, of "Some 12"] h1 h2 show ?thesis by blast
qed

lemma conn_frame_refl [simp]: "conn_frame s w w"
  by (simp add: conn_frame_def)

lemma conn_frame_trans: "conn_frame s w w1 \<Longrightarrow> conn_frame s w1 w2 \<Longrightarrow> conn_frame s w w2"
  unfolding conn_frame_def by (intro conjI) simp_all

lemma ports_frame_conn_frame: "ports_frame s w w' \<Longrightarrow> conn_frame s w w'"
  unfolding ports_frame_def conn_frame_def
  by (intro conjI) (simp_all, metis OpenFlowSwitch.select_convs(1) OpenFlowSwitch.surjective
      OpenFlowSwitch.update_convs(2))

lemma head_conn_frame: "conn_frame s w (setConnection_head s c w)"
  by (simp add: conn_frame_def setConnection_head_def Let_def removeListeners_def
        cancel_timer_def new_Timer_def set_switch_def split: option.splits)

lemma listen_conn_frame: "conn_frame s w (listenTo_con s c w)"
  by (simp add: conn_frame_def listenTo_con_def set_switch_def)

lemma capabilities_conn_frame:
  "conn_frame s w (set_switch s ((switches w s)\<lparr>capabilities := x\<rparr>) w)"
  by (simp add: conn_frame_def set_switch_def)

lemma setConnection_ports_state:
  "state_of (setConnection_ports s f w) =
     (case update_ports s (ofp_ports f)
             (map fst (ports (switches w s)))
             (set_switch s ((switches w s)\<lparr>capabilities := ofp_capabilities f\<rparr>) w) of
        Inl (e, w') \<Rightarrow> w'
      | Inr (U, w2) \<Rightarrow> state_of (remove_untouched s U w2))"
  by (simp add: setConnection_ports_def Let_def state_of_def set_switch_def
        split: sum.splits prod.splits)

lemma setConnection_ports_conn_frame: "conn_frame s w (state_of (setConnection_ports s f w))"
proof -
  let ?w1 = "set_switch s ((switches w s)\<lparr>capabilities := ofp_capabilities f\<rparr>) w"
  let ?U = "map fst (ports (switches w s))"
  have 1: "conn_frame s w ?w1" by (rule capabilities_conn_frame)
  have 2: "conn_frame s ?w1 (loop_world (update_ports s (ofp_ports f) ?U ?w1))"
    by (rule ports_frame_conn_frame [OF update_ports_frame])
  show ?thesis
  proof (cases "update_ports s (ofp_ports f) ?U ?w1")
    case (Inl a)
    then show ?thesis
      using conn_frame_trans [OF 1 2]
      by (simp add: setConnection_ports_state loop_world_def split: prod.splits)
  next
    case (Inr b)
    obtain U w2 where b: "b = (U, w2)" by (cases b)
    have "conn_frame s w2 (state_of (remove_untouched s U w2))"
      by (rule ports_frame_conn_frame [OF remove_untouched_frame])
    with conn_frame_trans [OF 1 2] Inr b show ?thesis
      by (simp add: setConnection_ports_state loop_world_def conn_frame_trans)
  qed
qed

lemma setConnection_state:
  "state_of (setConnection s c ofp w) =
     (case ofp of
        None \<Rightarrow> (case c of None \<Rightarrow> setConnection_head s c w
                  | Some x \<Rightarrow> listenTo_con s x (setConnection_head s c w))
      | Some f \<Rightarrow>
          (case setConnection_ports s f (setConnection_head s c w) of
             Inl (e, w') \<Rightarrow> w'
           | Inr w1 \<Rightarrow> (case c of None \<Rightarrow> w1 | Some x \<Rightarrow> listenTo_con s x w1)))"
  by (simp add: setConnection_def state_of_def split: option.splits sum.splits prod.splits)

lemma setConnection_conn_frame: "conn_frame s w (state_of (setConnection s c ofp w))"
proof (cases ofp)
  case None
  then show ?thesis
    using conn_frame_trans [OF head_conn_frame listen_conn_frame]
    by (simp add: setConnection_state head_conn_frame split: option.splits)
next
  case (Some f)
  let ?h = "setConnection_head s c w"
  have 1: "conn_frame s w (state_of (setConnection_ports s f ?h))"
    using conn_frame_trans [OF head_conn_frame setConnection_ports_conn_frame] .
  show ?thesis
  proof (cases "setConnection_ports s f ?h")
    case (Inl a)
    obtain e w' where a: "a = (e, w')" by (cases a)
    from 1 have "conn_frame s w w'" by (simp add: Inl a state_of_def)
    then show ?thesis by (simp add: setConnection_state Some Inl a)
  next
    case (Inr w1)
    from 1 have 2: "conn_frame s w w1" by (simp add: Inr state_of_def)
    show ?thesis
      using 2 conn_frame_trans [OF 2 listen_conn_frame]
      by (simp add: setConnection_state Some Inr split: option.splits)
  qed
qed


text \<open>A tracked port reported under another name stops the first loop at its assertion.\<close>

lemma update_ports_mismatch:
  "ports_wf s w \<Longrightarrow> distinct (map port_no ps) \<Longrightarrow>
   (\<forall>q\<in>set ps. table w s (port_no q) \<noteq> None \<longrightarrow> port_no q \<in> set U) \<Longrightarrow>
   p \<in> set ps \<Longrightarrow> table w s (port_no p) = Some r \<Longrightarrow> port_name (port_objs w r) \<noteq> name p \<Longrightarrow>
   \<exists>w'. update_ports s ps U w = Inl (AssertionError, w') \<and> port_objs w' r = port_objs w r"
proof (induction ps arbitrary: U w)
  case Nil
  then show ?case by simp
next
  case (Cons q qs)
  have dist: "distinct (map port_no qs)" and "port_no q \<notin> port_no ` set qs"
    using Cons.prems(2) by auto
  then have fresh: "\<forall>x\<in>set qs. port_no x \<noteq> port_no q" by (metis imageI)
  show ?case
  proof (cases "table w s (port_no q)")
    case None
    then have pq: "p \<in> set qs" using Cons.prems(4,5) by auto
    then have ne: "port_no p \<noteq> port_no q" using fresh by auto
    have lt: "r < next_ref w" using Cons.prems(1,5) by (simp add: ports_wf_def)
    have wf: "ports_wf s (step_new s q w)" using Cons.prems(1) None by (rule ports_wf_step_new)
    have U: "\<forall>x\<in>set qs. table (step_new s q w) s (port_no x) \<noteq> None \<longrightarrow> port_no x \<in> set U"
      using Cons.prems(3) fresh by simp
    have "table (step_new s q w) s (port_no p) = Some r" using ne Cons.prems(5) by simp
    moreover have "port_name (port_objs (step_new s q w) r) \<noteq> name p"
      using lt Cons.prems(6) by simp
    ultimately obtain w' where "update_ports s qs U (step_new s q w) = Inl (AssertionError, w')"
      "port_objs w' r = port_objs (step_new s q w) r"
      using Cons.IH [OF wf dist U pq] by blast
    with None lt show ?thesis by (simp add: update_ports_Cons)
  next
    case (Some r')
    have num: "number (port_objs w r') = port_no q"
      using Cons.prems(1) Some by (simp add: ports_wf_def)
    show ?thesis
    proof (cases "port_name (port_objs w r') = name q")
      case False
      with Some show ?thesis by (simp add: update_ports_Cons)
    next
      case True
      have "p \<noteq> q" using True Some Cons.prems(5,6) by auto
      then have pq: "p \<in> set qs" using Cons.prems(4) by auto
      then have ne: "port_no p \<noteq> port_no q" using fresh by auto
      have rr: "r \<noteq> r'"
        using ports_wf_inj [OF Cons.prems(1), of "port_no p" r "port_no q"] Cons.prems(5) Some ne
        by auto
      have inU: "port_no q \<in> set U" using Cons.prems(3) Some by simp
      have wf: "ports_wf s (step_tracked r' q w)"
        using Cons.prems(1) by (rule ports_wf_step_tracked)
      have U: "\<forall>x\<in>set qs. table (step_tracked r' q w) s (port_no x) \<noteq> None \<longrightarrow>
          port_no x \<in> set (removeAll (port_no q) U)"
        using Cons.prems(3) fresh by simp
      have "table (step_tracked r' q w) s (port_no p) = Some r" using Cons.prems(5) by simp
      moreover have "port_name (port_objs (step_tracked r' q w) r) \<noteq> name p"
        using rr Cons.prems(6) by simp
      ultimately obtain w' where
        "update_ports s qs (removeAll (port_no q) U) (step_tracked r' q w) = Inl (AssertionError, w')"
        "port_objs w' r = port_objs (step_tracked r' q w) r"
        using Cons.IH [OF wf dist U pq] by blast
      with Some True num inU rr show ?thesis by (simp add: update_ports_Cons)
    qed
  qed
qed

lemma full_mode_mismatch:
  assumes wf: "ports_wf s w" and d: "distinct (map port_no (ofp_ports f))"
    and p: "p \<in> set (ofp_ports f)" and t: "table w s (port_no p) = Some r"
    and nm: "port_name (port_objs w r) \<noteq> name p"
  shows "\<exists>w'. setConnection s c (Some f) w = Inl (AssertionError, w') \<and>
              port_objs w' r = port_objs w r"
proof -
  let ?h = "setConnection_head s c w"
  define w1 where "w1 = set_switch s ((switches ?h s)\<lparr>capabilities := ofp_capabilities f\<rparr>) ?h"
  define U where "U = map fst (ports (switches w1 s))"
  have p1: "ports (switches w1 s) = ports (switches w s)" by (simp add: w1_def set_switch_def)
  have t1 [simp]: "table w1 s = table w s" by (simp add: table_def p1)
  have o1 [simp]: "port_objs w1 = port_objs w" by (simp add: w1_def set_switch_def)
  have n1: "next_ref w \<le> next_ref w1" using head_next_ref [of w s c] by (simp add: w1_def set_switch_def)
  have wf1: "ports_wf s w1" using wf n1 by (fastforce simp: ports_wf_def p1)
  have Udom: "set U = dom (table w s)"
    by (simp add: U_def p1 table_def dom_map_of_conv_image_fst)
  have "\<forall>q\<in>set (ofp_ports f). table w1 s (port_no q) \<noteq> None \<longrightarrow> port_no q \<in> set U"
    using Udom by auto
  from update_ports_mismatch [OF wf1 d this p, of r] t nm obtain w' where
    "update_ports s (ofp_ports f) U w1 = Inl (AssertionError, w')" "port_objs w' r = port_objs w r"
    by auto
  then show ?thesis
    by (simp add: setConnection_def setConnection_ports_def Let_def w1_def [symmetric]
          U_def [symmetric])
qed

text \<open>The incremental handler, case by case.\<close>

lemma PortStatus_delete:
  "handle_con_PortStatus s OFPPR_DELETE p w =
     (case table w s (port_no p) of
        Some r \<Rightarrow> Inr ((step_remove s (port_no p) r w)
                         \<lparr>raised := raised w @ [PortStatus s OFPPR_DELETE p]\<rparr>)
      | None \<Rightarrow> Inr (w\<lparr>raised := raised w @ [PortStatus s OFPPR_DELETE p]\<rparr>))"
  by (simp add: handle_con_PortStatus_def table_def step_remove_def set_switch_def set_port_def
        split: option.splits)

lemma PortStatus_modify:
  "handle_con_PortStatus s OFPPR_MODIFY p w =
     (case table w s (port_no p) of
        None \<Rightarrow> Inl (KeyError, w)
      | Some r \<Rightarrow>
          if port_name (port_objs w r) \<noteq> name p \<or> number (port_objs w r) \<noteq> port_no p
          then Inl (AssertionError, w)
          else Inr ((step_tracked r p w)\<lparr>raised := raised w @ [PortStatus s OFPPR_MODIFY p]\<rparr>))"
  by (simp add: handle_con_PortStatus_def table_def step_tracked_def set_port_def
        OpenFlowPort_update_def OFPPR_MODIFY_def OFPPR_DELETE_def split: option.splits)

lemma PortStatus_add:
  "handle_con_PortStatus s OFPPR_ADD p w =
     (if table w s (port_no p) \<noteq> None then Inl (AssertionError, w)
      else Inr ((step_new s p w)\<lparr>raised := raised w @ [PortStatus s OFPPR_ADD p]\<rparr>))"
  by (simp add: handle_con_PortStatus_def table_def step_new_def set_port_def set_switch_def
        OFPPR_MODIFY_def OFPPR_DELETE_def OFPPR_ADD_def)

lemma PortStatus_other:
  "reason \<noteq> OFPPR_DELETE \<Longrightarrow> reason \<noteq> OFPPR_MODIFY \<Longrightarrow> reason \<noteq> OFPPR_ADD \<Longrightarrow>
   handle_con_PortStatus s reason p w = Inl (AssertionError, w)"
  by (simp add: handle_con_PortStatus_def)

lemma PortStatus_identity:
  "r < next_ref w \<Longrightarrow>
   number (port_objs (state_of (handle_con_PortStatus s reason p w)) r) = number (port_objs w r) \<and>
   port_name (port_objs (state_of (handle_con_PortStatus s reason p w)) r) =
     port_name (port_objs w r)"
proof -
  assume lt: "r < next_ref w"
  consider "reason = OFPPR_DELETE" | "reason = OFPPR_MODIFY" | "reason = OFPPR_ADD"
    | "reason \<noteq> OFPPR_DELETE" "reason \<noteq> OFPPR_MODIFY" "reason \<noteq> OFPPR_ADD" by blast
  then show ?thesis
  proof cases
    case 1
    then show ?thesis by (simp add: PortStatus_delete state_of_def split: option.splits)
  next
    case 2
    then show ?thesis by (simp add: PortStatus_modify state_of_def split: option.splits)
  next
    case 3
    then show ?thesis using lt by (simp add: PortStatus_add state_of_def)
  next
    case 4
    then show ?thesis by (simp add: PortStatus_other state_of_def)
  qed
qed

section \<open>Port number and name\<close>

text \<open>
  C10. A port's number and name do not change after creation. \<open>_update\<close> fails its
  assertion when the descriptor's name or number differs from the stored one, and when it
  returns it has changed hardware address, config and state only. An incremental modify
  of a tracked port under another name raises AssertionError and leaves the world as it
  was; a full-mode update with distinct port numbers that reports a tracked port under
  another name raises AssertionError and leaves that port object as it was. Whatever
  \<open>_setConnection\<close> and the port-status handler do, return or raise, every port object
  allocated before keeps its number and its name.
\<close>

theorem port_number_and_name_immutable:
  "(port_name po \<noteq> name q \<or> number po \<noteq> port_no q \<longrightarrow>
      OpenFlowPort_update po q = Inl AssertionError) \<and>
   (OpenFlowPort_update po q = Inr po' \<longrightarrow>
      po' = po\<lparr>hwAddr := hw_addr q, port_config := config q, port_state := state q\<rparr>) \<and>
   (table w s (port_no p) = Some r \<longrightarrow>
      port_name (port_objs w r) \<noteq> name p \<or> number (port_objs w r) \<noteq> port_no p \<longrightarrow>
      handle_con_PortStatus s OFPPR_MODIFY p w = Inl (AssertionError, w)) \<and>
   (ports_wf s w \<longrightarrow> distinct (map port_no (ofp_ports f)) \<longrightarrow> p \<in> set (ofp_ports f) \<longrightarrow>
      table w s (port_no p) = Some r \<longrightarrow> port_name (port_objs w r) \<noteq> name p \<longrightarrow>
      (\<exists>w'. setConnection s c (Some f) w = Inl (AssertionError, w') \<and>
            port_objs w' r = port_objs w r)) \<and>
   (\<forall>x<next_ref w.
      number (port_objs (state_of (setConnection s c ofp w)) x) = number (port_objs w x) \<and>
      port_name (port_objs (state_of (setConnection s c ofp w)) x) = port_name (port_objs w x)) \<and>
   (\<forall>x<next_ref w.
      number (port_objs (state_of (handle_con_PortStatus s reason p w)) x) =
        number (port_objs w x) \<and>
      port_name (port_objs (state_of (handle_con_PortStatus s reason p w)) x) =
        port_name (port_objs w x))"
proof (intro conjI)
  show "port_name po \<noteq> name q \<or> number po \<noteq> port_no q \<longrightarrow>
      OpenFlowPort_update po q = Inl AssertionError"
    by (simp add: update_Inl_iff)
  show "OpenFlowPort_update po q = Inr po' \<longrightarrow>
      po' = po\<lparr>hwAddr := hw_addr q, port_config := config q, port_state := state q\<rparr>"
    by (simp add: update_Inr_iff)
  show "table w s (port_no p) = Some r \<longrightarrow>
      port_name (port_objs w r) \<noteq> name p \<or> number (port_objs w r) \<noteq> port_no p \<longrightarrow>
      handle_con_PortStatus s OFPPR_MODIFY p w = Inl (AssertionError, w)"
    by (simp add: PortStatus_modify)
  show "ports_wf s w \<longrightarrow> distinct (map port_no (ofp_ports f)) \<longrightarrow> p \<in> set (ofp_ports f) \<longrightarrow>
      table w s (port_no p) = Some r \<longrightarrow> port_name (port_objs w r) \<noteq> name p \<longrightarrow>
      (\<exists>w'. setConnection s c (Some f) w = Inl (AssertionError, w') \<and>
            port_objs w' r = port_objs w r)"
    using full_mode_mismatch by blast
  show "\<forall>x<next_ref w.
      number (port_objs (state_of (setConnection s c ofp w)) x) = number (port_objs w x) \<and>
      port_name (port_objs (state_of (setConnection s c ofp w)) x) = port_name (port_objs w x)"
    using setConnection_conn_frame [of s w c ofp] by (simp add: conn_frame_def)
  show "\<forall>x<next_ref w.
      number (port_objs (state_of (handle_con_PortStatus s reason p w)) x) =
        number (port_objs w x) \<and>
      port_name (port_objs (state_of (handle_con_PortStatus s reason p w)) x) =
        port_name (port_objs w x)"
    using PortStatus_identity by blast
qed


theorem port_number_and_name_immutable_witness:
  "OpenFlowPort_update (port_objs connected_world (Suc 0)) (eth 1 ''eth9'') = Inl AssertionError \<and>
   OpenFlowPort_update (port_objs connected_world (Suc 0)) (eth 1 ''eth0'') =
     Inr (port_objs connected_world (Suc 0)) \<and>
   handle_con_PortStatus 0 OFPPR_MODIFY (eth 1 ''eth9'') connected_world =
     Inl (AssertionError, connected_world) \<and>
   (\<exists>w'. setConnection 0 (Some 11) (Some features_renamed) connected_world =
           Inl (AssertionError, w') \<and>
         port_objs w' (Suc 0) = port_objs connected_world (Suc 0)) \<and>
   port_name (port_objs (state_of (setConnection 0 (Some 11) (Some features2) connected_world))
     (Suc 0)) = ''eth0'' \<and>
   number (port_objs (state_of (handle_con_PortStatus 0 OFPPR_DELETE (eth 2 ''eth1'')
     connected_world)) 2) = 2"
proof -
  have t: "table connected_world 0 (port_no (eth 1 ''eth9'')) = Some (Suc 0)"
    by (simp add: connected_table eth_def)
  have nm: "port_name (port_objs connected_world (Suc 0)) \<noteq> name (eth 1 ''eth9'')"
    by (simp add: connected_port_objs OpenFlowPort_init_def eth_def)
  have d: "distinct (map port_no (ofp_ports features_renamed))"
    and m: "eth 1 ''eth9'' \<in> set (ofp_ports features_renamed)"
    by (simp_all add: features_renamed_def)
  have lt: "Suc 0 < next_ref connected_world" "2 < next_ref connected_world"
    by (simp_all add: connected_next_ref)
  note A = port_number_and_name_immutable
    [of "port_objs connected_world (Suc 0)" "eth 1 ''eth9''" _ connected_world 0 "eth 1 ''eth9''"
       "Suc 0" features_renamed "Some 11" "Some features2" OFPPR_DELETE]
  note B = port_number_and_name_immutable
    [of "port_objs connected_world (Suc 0)" "eth 1 ''eth0''" "port_objs connected_world (Suc 0)"
       connected_world 0 "eth 2 ''eth1''" 2 features_renamed "Some 11" "Some features2"
       OFPPR_DELETE]
  have 1: "OpenFlowPort_update (port_objs connected_world (Suc 0)) (eth 1 ''eth9'') =
      Inl AssertionError"
    using A nm by blast
  have 2: "OpenFlowPort_update (port_objs connected_world (Suc 0)) (eth 1 ''eth0'') =
      Inr (port_objs connected_world (Suc 0))"
    by (simp add: connected_port_objs OpenFlowPort_init_def OpenFlowPort_update_def eth_def)
  have 3: "handle_con_PortStatus 0 OFPPR_MODIFY (eth 1 ''eth9'') connected_world =
      Inl (AssertionError, connected_world)"
    using A t nm by blast
  have 4: "\<exists>w'. setConnection 0 (Some 11) (Some features_renamed) connected_world =
           Inl (AssertionError, w') \<and>
         port_objs w' (Suc 0) = port_objs connected_world (Suc 0)"
    using A connected_ports_wf d m t nm by blast
  have 5: "port_name (port_objs (state_of (setConnection 0 (Some 11) (Some features2)
      connected_world)) (Suc 0)) = port_name (port_objs connected_world (Suc 0))"
    using A lt(1) by blast
  have 6: "number (port_objs (state_of (handle_con_PortStatus 0 OFPPR_DELETE (eth 2 ''eth1'')
      connected_world)) 2) = number (port_objs connected_world 2)"
    using B lt(2) by blast
  from B 2 have "port_objs connected_world (Suc 0) = (port_objs connected_world (Suc 0))
      \<lparr>hwAddr := hw_addr (eth 1 ''eth0''), port_config := config (eth 1 ''eth0''),
        port_state := state (eth 1 ''eth0'')\<rparr>"
    by blast
  with 1 2 3 4 5 6 show ?thesis
    by (simp add: connected_port_objs OpenFlowPort_init_def eth_def)
qed

section \<open>Incremental port status\<close>

text \<open>
  C8, as amended. An add for a tracked port number fails an assertion and changes
  nothing; for an untracked number it binds the number to a new port object built from
  the descriptor. A modify for an untracked number raises KeyError and changes nothing;
  for a tracked number whose stored name and number are the descriptor's it updates
  hardware address, config and state in the stored object. A delete for a tracked number
  marks the port object not existing and takes the number out of the table; a delete for
  an untracked number is absorbed: the handler returns, and nothing changes but the
  event being passed on, as in every returning case.
\<close>

theorem port_status_incremental:
  "(table w s (port_no p) \<noteq> None \<longrightarrow>
      handle_con_PortStatus s OFPPR_ADD p w = Inl (AssertionError, w)) \<and>
   (table w s (port_no p) = None \<longrightarrow>
      (\<exists>w'. handle_con_PortStatus s OFPPR_ADD p w = Inr w' \<and>
         table w' s = (table w s)(port_no p \<mapsto> next_ref w) \<and>
         port_objs w' = (port_objs w)(next_ref w := OpenFlowPort_init p) \<and>
         raised w' = raised w @ [PortStatus s OFPPR_ADD p])) \<and>
   (table w s (port_no p) = None \<longrightarrow>
      handle_con_PortStatus s OFPPR_MODIFY p w = Inl (KeyError, w)) \<and>
   (table w s (port_no p) = Some r \<longrightarrow> port_name (port_objs w r) = name p \<longrightarrow>
      number (port_objs w r) = port_no p \<longrightarrow>
      (\<exists>w'. handle_con_PortStatus s OFPPR_MODIFY p w = Inr w' \<and>
         table w' s = table w s \<and>
         port_objs w' = (port_objs w)
           (r := (port_objs w r)\<lparr>hwAddr := hw_addr p, port_config := config p,
                                  port_state := state p\<rparr>) \<and>
         raised w' = raised w @ [PortStatus s OFPPR_MODIFY p])) \<and>
   (table w s (port_no p) = Some r \<longrightarrow>
      (\<exists>w'. handle_con_PortStatus s OFPPR_DELETE p w = Inr w' \<and>
         table w' s = (table w s)(port_no p := None) \<and>
         port_objs w' = (port_objs w)(r := (port_objs w r)\<lparr>exists := False\<rparr>) \<and>
         raised w' = raised w @ [PortStatus s OFPPR_DELETE p])) \<and>
   (table w s (port_no p) = None \<longrightarrow>
      handle_con_PortStatus s OFPPR_DELETE p w =
        Inr (w\<lparr>raised := raised w @ [PortStatus s OFPPR_DELETE p]\<rparr>))"
proof -
  have raised_simps [simp]: "\<And>x. table (w\<lparr>raised := x\<rparr>) s = table w s"
    "\<And>r q x. table ((step_tracked r q w)\<lparr>raised := x\<rparr>) s = table w s"
    "\<And>q x. table ((step_new s q w)\<lparr>raised := x\<rparr>) s = (table w s)(port_no q \<mapsto> next_ref w)"
    "\<And>k r x. table ((step_remove s k r w)\<lparr>raised := x\<rparr>) s = (table w s)(k := None)"
    by (auto simp: table_def step_tracked_def step_new_def step_remove_def set_port_def
          set_switch_def update_conv' delete_conv')
  show ?thesis
    by (simp add: PortStatus_add PortStatus_modify PortStatus_delete)
qed

theorem port_status_incremental_witness:
  "handle_con_PortStatus 0 OFPPR_ADD (eth 2 ''eth1'') connected_world =
     Inl (AssertionError, connected_world) \<and>
   (\<exists>w'. handle_con_PortStatus 0 OFPPR_ADD (eth 3 ''eth2'') connected_world = Inr w' \<and>
      table w' 0 3 = Some 4) \<and>
   handle_con_PortStatus 0 OFPPR_MODIFY (eth 3 ''eth2'') connected_world =
     Inl (KeyError, connected_world) \<and>
   (\<exists>w'. handle_con_PortStatus 0 OFPPR_MODIFY (eth 2 ''eth1'') connected_world = Inr w' \<and>
      table w' 0 = table connected_world 0) \<and>
   (\<exists>w'. handle_con_PortStatus 0 OFPPR_DELETE (eth 2 ''eth1'') connected_world = Inr w' \<and>
      table w' 0 2 = None \<and> exists (port_objs w' 2) = False) \<and>
   isl (handle_con_PortStatus 0 OFPPR_DELETE (eth 3 ''eth2'') connected_world) = False"
proof -
  have t2: "table connected_world 0 (port_no (eth 2 ''eth1'')) = Some 2"
    and t3: "table connected_world 0 (port_no (eth 3 ''eth2'')) = None"
    by (simp_all add: connected_table eth_def)
  have m: "port_name (port_objs connected_world 2) = name (eth 2 ''eth1'')"
    "number (port_objs connected_world 2) = port_no (eth 2 ''eth1'')"
    by (simp_all add: connected_port_objs OpenFlowPort_init_def eth_def)
  note A = port_status_incremental [of connected_world 0 "eth 2 ''eth1''" 2]
  note B = port_status_incremental [of connected_world 0 "eth 3 ''eth2''" 2]
  have 1: "handle_con_PortStatus 0 OFPPR_ADD (eth 2 ''eth1'') connected_world =
      Inl (AssertionError, connected_world)"
    using A t2 by simp
  have 2: "\<exists>w'. handle_con_PortStatus 0 OFPPR_ADD (eth 3 ''eth2'') connected_world = Inr w' \<and>
      table w' 0 3 = Some 4"
    using B t3 by (auto simp: eth_def connected_next_ref)
  have 3: "handle_con_PortStatus 0 OFPPR_MODIFY (eth 3 ''eth2'') connected_world =
      Inl (KeyError, connected_world)"
    using B t3 by simp
  have 4: "\<exists>w'. handle_con_PortStatus 0 OFPPR_MODIFY (eth 2 ''eth1'') connected_world = Inr w' \<and>
      table w' 0 = table connected_world 0"
    using A t2 m by auto
  have 5: "\<exists>w'. handle_con_PortStatus 0 OFPPR_DELETE (eth 2 ''eth1'') connected_world = Inr w' \<and>
      table w' 0 2 = None \<and> exists (port_objs w' 2) = False"
    using A t2 by (auto simp: eth_def)
  have 6: "isl (handle_con_PortStatus 0 OFPPR_DELETE (eth 3 ''eth2'') connected_world) = False"
    using B t3 by simp
  from 1 2 3 4 5 6 show ?thesis by blast
qed

text \<open>
  C8 as stated fails: a delete for port 3, which the switch does not track, returns
  without an error.
\<close>

theorem port_status_delete_untracked_counterexample:
  "handle_con_PortStatus 0 OFPPR_DELETE (eth 3 ''eth2'') connected_world =
     Inr (connected_world\<lparr>raised := raised connected_world @
            [PortStatus 0 OFPPR_DELETE (eth 3 ''eth2'')]\<rparr>) \<and>
   table connected_world 0 (port_no (eth 3 ''eth2'')) = None"
  by (simp add: PortStatus_delete connected_table eth_def)

section \<open>Link events\<close>

lemma two_switch_facts:
  "attrs (adaptor two_switch_world) ''topology'' = Bound"
  "entities_by_id two_switch_world (Suc 0) = Some 0"
  "entities_by_id two_switch_world 2 = Some 4"
  "entities_by_id two_switch_world 3 = None"
  "ports (switches two_switch_world 0) = [(1, 1), (2, 2)]"
  "ports (switches two_switch_world 4) = [(1, 5), (2, 6)]"
  "entities (port_objs two_switch_world (Suc 0)) = {}"
  "entities (port_objs two_switch_world 5) = {}"
  by (simp_all add: two_switch_world_def example_defs model_defs)

lemma LinkEvent_dropped:
  assumes "attrs (adaptor w) ''topology'' \<noteq> Unset"
    and "getEntityByID w (dpid1 ev) = None \<or> getEntityByID w (dpid2 ev) = None \<or>
         (\<exists>sw1. getEntityByID w (dpid1 ev) = Some sw1 \<and> table w sw1 (port1 ev) = None) \<or>
         (\<exists>sw2. getEntityByID w (dpid2 ev) = Some sw2 \<and> table w sw2 (port2 ev) = None)"
  shows "handle_openflow_discovery_LinkEvent ev w = Inr w"
  using assms
  by (auto simp: handle_openflow_discovery_LinkEvent_def table_def
           split: attr.splits option.splits)

lemma LinkEvent_resolved:
  assumes "attrs (adaptor w) ''topology'' = Bound"
    and "getEntityByID w (dpid1 ev) = Some sw1" and "getEntityByID w (dpid2 ev) = Some sw2"
    and "table w sw1 (port1 ev) = Some r1" and "table w sw2 (port2 ev) = Some r2"
  shows "handle_openflow_discovery_LinkEvent ev w =
     (if added ev then
        Inr (set_port r2 (addEntity (port_objs (set_port r1 (addEntity (port_objs w r1) sw2 True) w) r2)
                            sw1 True)
               (set_port r1 (addEntity (port_objs w r1) sw2 True) w))
      else if removed ev then
        (case set_remove r1 sw2 w of Inl e \<Rightarrow> Inl e | Inr w1 \<Rightarrow> set_remove r2 sw1 w1)
      else Inr w)"
  using assms
  by (simp add: handle_openflow_discovery_LinkEvent_def table_def Let_def)

text \<open>
  C5. For every link event the handler gets while the topology attribute is set: if a
  switch identifier resolves to no entity of the topology store, or a port number is not
  in its switch's port table, the handler returns and the world is unchanged. For a
  link-added event whose switches and ports resolve (two port objects, or one port of one
  switch), each port's neighbour set becomes exactly the other switch, whatever it held
  before, and nothing else changes.
\<close>

theorem link_added:
  "(attrs (adaptor w) ''topology'' \<noteq> Unset \<longrightarrow>
      getEntityByID w (dpid1 ev) = None \<or> getEntityByID w (dpid2 ev) = None \<or>
      (\<exists>sw1. getEntityByID w (dpid1 ev) = Some sw1 \<and> table w sw1 (port1 ev) = None) \<or>
      (\<exists>sw2. getEntityByID w (dpid2 ev) = Some sw2 \<and> table w sw2 (port2 ev) = None) \<longrightarrow>
      handle_openflow_discovery_LinkEvent ev w = Inr w) \<and>
   (added ev \<longrightarrow> attrs (adaptor w) ''topology'' = Bound \<longrightarrow>
      getEntityByID w (dpid1 ev) = Some sw1 \<longrightarrow> getEntityByID w (dpid2 ev) = Some sw2 \<longrightarrow>
      table w sw1 (port1 ev) = Some r1 \<longrightarrow> table w sw2 (port2 ev) = Some r2 \<longrightarrow>
      (r1 = r2 \<longrightarrow> sw1 = sw2) \<longrightarrow>
      (\<exists>w'. handle_openflow_discovery_LinkEvent ev w = Inr w' \<and>
         entities (port_objs w' r1) = {sw2} \<and> entities (port_objs w' r2) = {sw1} \<and>
         (\<forall>r. r \<noteq> r1 \<longrightarrow> r \<noteq> r2 \<longrightarrow> port_objs w' r = port_objs w r) \<and>
         switches w' = switches w \<and> entities_by_id w' = entities_by_id w \<and>
         raised w' = raised w))"
proof (intro conjI impI)
  assume "attrs (adaptor w) ''topology'' \<noteq> Unset"
    and "getEntityByID w (dpid1 ev) = None \<or> getEntityByID w (dpid2 ev) = None \<or>
      (\<exists>sw1. getEntityByID w (dpid1 ev) = Some sw1 \<and> table w sw1 (port1 ev) = None) \<or>
      (\<exists>sw2. getEntityByID w (dpid2 ev) = Some sw2 \<and> table w sw2 (port2 ev) = None)"
  then show "handle_openflow_discovery_LinkEvent ev w = Inr w" by (rule LinkEvent_dropped)
next
  assume a: "added ev" and b: "attrs (adaptor w) ''topology'' = Bound"
    and s1: "getEntityByID w (dpid1 ev) = Some sw1" and s2: "getEntityByID w (dpid2 ev) = Some sw2"
    and t1: "table w sw1 (port1 ev) = Some r1" and t2: "table w sw2 (port2 ev) = Some r2"
    and sh: "r1 = r2 \<longrightarrow> sw1 = sw2"
  show "\<exists>w'. handle_openflow_discovery_LinkEvent ev w = Inr w' \<and>
         entities (port_objs w' r1) = {sw2} \<and> entities (port_objs w' r2) = {sw1} \<and>
         (\<forall>r. r \<noteq> r1 \<longrightarrow> r \<noteq> r2 \<longrightarrow> port_objs w' r = port_objs w r) \<and>
         switches w' = switches w \<and> entities_by_id w' = entities_by_id w \<and>
         raised w' = raised w"
    using sh by (auto simp: LinkEvent_resolved [OF b s1 s2 t1 t2] a set_port_def addEntity_def)
qed

theorem link_added_witness:
  "handle_openflow_discovery_LinkEvent (link_1_3 True) two_switch_world = Inr two_switch_world \<and>
   (\<exists>w'. handle_openflow_discovery_LinkEvent (link_1_2 True) two_switch_world = Inr w' \<and>
      entities (port_objs w' (Suc 0)) = {4} \<and> entities (port_objs w' 5) = {0})"
proof -
  have b: "attrs (adaptor two_switch_world) ''topology'' = Bound" by (rule two_switch_facts)
  have n3: "getEntityByID two_switch_world (dpid2 (link_1_3 True)) = None"
    by (simp add: getEntityByID_def link_1_3_def two_switch_facts)
  have r: "getEntityByID two_switch_world (dpid1 (link_1_2 True)) = Some 0"
    "getEntityByID two_switch_world (dpid2 (link_1_2 True)) = Some 4"
    "table two_switch_world 0 (port1 (link_1_2 True)) = Some (Suc 0)"
    "table two_switch_world 4 (port2 (link_1_2 True)) = Some 5"
    by (simp_all add: getEntityByID_def table_def link_1_2_def two_switch_facts)
  have 1: "handle_openflow_discovery_LinkEvent (link_1_3 True) two_switch_world =
      Inr two_switch_world"
    using link_added [of two_switch_world "link_1_3 True"] b n3 by simp
  have 2: "\<exists>w'. handle_openflow_discovery_LinkEvent (link_1_2 True) two_switch_world = Inr w' \<and>
      entities (port_objs w' (Suc 0)) = {4} \<and> entities (port_objs w' 5) = {0}"
    using link_added [of two_switch_world "link_1_2 True" 0 4 "Suc 0" 5] b r
    by (simp add: link_1_2_def) blast
  from 1 2 show ?thesis by blast
qed

lemma set_remove_simps:
  "x \<in> entities (port_objs w r) \<Longrightarrow>
     set_remove r x w =
       Inr (set_port r ((port_objs w r)\<lparr>entities := entities (port_objs w r) - {x}\<rparr>) w)"
  "x \<notin> entities (port_objs w r) \<Longrightarrow> set_remove r x w = Inl (KeyError, w)"
  by (simp_all add: set_remove_def)

text \<open>
  C6, as amended. For every link-removed event whose switches and ports resolve to two
  different port objects: when each port's neighbour set holds the other switch, the
  switch is removed from both sets and nothing else changes; when the first port's set
  does not hold the second switch, the handler raises KeyError and the world is
  unchanged; when the first holds it and the second port's set does not hold the first
  switch, the first set has lost its entry and the handler raises KeyError.
\<close>

theorem link_removed:
  "\<not> added ev \<longrightarrow> removed ev \<longrightarrow> attrs (adaptor w) ''topology'' = Bound \<longrightarrow>
   getEntityByID w (dpid1 ev) = Some sw1 \<longrightarrow> getEntityByID w (dpid2 ev) = Some sw2 \<longrightarrow>
   table w sw1 (port1 ev) = Some r1 \<longrightarrow> table w sw2 (port2 ev) = Some r2 \<longrightarrow> r1 \<noteq> r2 \<longrightarrow>
   (sw2 \<in> entities (port_objs w r1) \<longrightarrow> sw1 \<in> entities (port_objs w r2) \<longrightarrow>
      (\<exists>w'. handle_openflow_discovery_LinkEvent ev w = Inr w' \<and>
         entities (port_objs w' r1) = entities (port_objs w r1) - {sw2} \<and>
         entities (port_objs w' r2) = entities (port_objs w r2) - {sw1} \<and>
         (\<forall>r. r \<noteq> r1 \<longrightarrow> r \<noteq> r2 \<longrightarrow> port_objs w' r = port_objs w r) \<and>
         switches w' = switches w \<and> entities_by_id w' = entities_by_id w)) \<and>
   (sw2 \<notin> entities (port_objs w r1) \<longrightarrow>
      handle_openflow_discovery_LinkEvent ev w = Inl (KeyError, w)) \<and>
   (sw2 \<in> entities (port_objs w r1) \<longrightarrow> sw1 \<notin> entities (port_objs w r2) \<longrightarrow>
      handle_openflow_discovery_LinkEvent ev w =
        Inl (KeyError,
             set_port r1 ((port_objs w r1)\<lparr>entities := entities (port_objs w r1) - {sw2}\<rparr>) w))"
proof (intro impI)
  assume a: "\<not> added ev" "removed ev" and b: "attrs (adaptor w) ''topology'' = Bound"
    and s1: "getEntityByID w (dpid1 ev) = Some sw1" and s2: "getEntityByID w (dpid2 ev) = Some sw2"
    and t1: "table w sw1 (port1 ev) = Some r1" and t2: "table w sw2 (port2 ev) = Some r2"
    and ne: "r1 \<noteq> r2"
  note R = LinkEvent_resolved [OF b s1 s2 t1 t2]
  show "(sw2 \<in> entities (port_objs w r1) \<longrightarrow> sw1 \<in> entities (port_objs w r2) \<longrightarrow>
      (\<exists>w'. handle_openflow_discovery_LinkEvent ev w = Inr w' \<and>
         entities (port_objs w' r1) = entities (port_objs w r1) - {sw2} \<and>
         entities (port_objs w' r2) = entities (port_objs w r2) - {sw1} \<and>
         (\<forall>r. r \<noteq> r1 \<longrightarrow> r \<noteq> r2 \<longrightarrow> port_objs w' r = port_objs w r) \<and>
         switches w' = switches w \<and> entities_by_id w' = entities_by_id w)) \<and>
   (sw2 \<notin> entities (port_objs w r1) \<longrightarrow>
      handle_openflow_discovery_LinkEvent ev w = Inl (KeyError, w)) \<and>
   (sw2 \<in> entities (port_objs w r1) \<longrightarrow> sw1 \<notin> entities (port_objs w r2) \<longrightarrow>
      handle_openflow_discovery_LinkEvent ev w =
        Inl (KeyError,
             set_port r1 ((port_objs w r1)\<lparr>entities := entities (port_objs w r1) - {sw2}\<rparr>) w))"
    using a ne by (auto simp: R set_remove_def set_port_def)
qed

theorem link_removed_witness:
  "(\<exists>w'. handle_openflow_discovery_LinkEvent (link_1_2 False) linked_world = Inr w' \<and>
      entities (port_objs w' (Suc 0)) = {} \<and> entities (port_objs w' 5) = {}) \<and>
   handle_openflow_discovery_LinkEvent (link_1_2 False) two_switch_world =
     Inl (KeyError, two_switch_world)"
proof -
  have L: "linked_world =
      set_port 5 (addEntity (port_objs two_switch_world 5) 0 True)
        (set_port (Suc 0) (addEntity (port_objs two_switch_world (Suc 0)) 4 True) two_switch_world)"
    by (simp add: linked_world_def handle_openflow_discovery_LinkEvent_def link_1_2_def
          getEntityByID_def two_switch_facts state_of_def Let_def set_port_def)
  have b: "attrs (adaptor two_switch_world) ''topology'' = Bound" by (rule two_switch_facts)
  have bl: "attrs (adaptor linked_world) ''topology'' = Bound"
    by (simp add: L set_port_def two_switch_facts)
  have r: "getEntityByID two_switch_world (dpid1 (link_1_2 False)) = Some 0"
    "getEntityByID two_switch_world (dpid2 (link_1_2 False)) = Some 4"
    "table two_switch_world 0 (port1 (link_1_2 False)) = Some (Suc 0)"
    "table two_switch_world 4 (port2 (link_1_2 False)) = Some 5"
    by (simp_all add: getEntityByID_def table_def link_1_2_def two_switch_facts)
  have rl: "getEntityByID linked_world (dpid1 (link_1_2 False)) = Some 0"
    "getEntityByID linked_world (dpid2 (link_1_2 False)) = Some 4"
    "table linked_world 0 (port1 (link_1_2 False)) = Some (Suc 0)"
    "table linked_world 4 (port2 (link_1_2 False)) = Some 5"
    by (simp_all add: L getEntityByID_def table_def link_1_2_def two_switch_facts set_port_def)
  have e: "entities (port_objs linked_world (Suc 0)) = {4}" "entities (port_objs linked_world 5) = {0}"
    by (simp_all add: L set_port_def addEntity_def)
  have f: "\<not> added (link_1_2 False)" "removed (link_1_2 False)" "Suc 0 \<noteq> (5::nat)"
    by (simp_all add: link_1_2_def)
  have 1: "\<exists>w'. handle_openflow_discovery_LinkEvent (link_1_2 False) linked_world = Inr w' \<and>
      entities (port_objs w' (Suc 0)) = {} \<and> entities (port_objs w' 5) = {}"
    using link_removed [of "link_1_2 False" linked_world 0 4 "Suc 0" 5] bl rl f e by auto
  have 2: "handle_openflow_discovery_LinkEvent (link_1_2 False) two_switch_world =
      Inl (KeyError, two_switch_world)"
    using link_removed [of "link_1_2 False" two_switch_world 0 4 "Suc 0" 5] b r f
    by (simp add: two_switch_facts)
  from 1 2 show ?thesis by blast
qed

text \<open>
  C6 as stated fails: a link-removed event between two switches whose ports hold no
  neighbour raises KeyError.
\<close>

theorem link_removed_absent_counterexample:
  "handle_openflow_discovery_LinkEvent (link_1_2 False) two_switch_world =
     Inl (KeyError, two_switch_world) \<and>
   entities (port_objs two_switch_world (Suc 0)) = {} \<and>
   entities (port_objs two_switch_world 5) = {}"
  by (simp add: handle_openflow_discovery_LinkEvent_def link_1_2_def getEntityByID_def
        two_switch_facts set_remove_def)

section \<open>Connection lifecycle\<close>

lemma same_registry_refl [simp]: "same_registry w w"
  by (simp add: same_registry_def)

lemma same_registry_trans:
  "same_registry w w1 \<Longrightarrow> same_registry w1 w2 \<Longrightarrow> same_registry w w2"
  by (simp add: same_registry_def)

lemma conn_frame_same_registry: "conn_frame s w w' \<Longrightarrow> same_registry w w'"
  unfolding conn_frame_def same_registry_def by (intro conjI allI) (simp_all, metis)

lemma head_effect:
  "connection (switches (setConnection_head s c w) s) = c"
  "reconnectTimeout (switches (setConnection_head s c w) s) =
     (case c of None \<Rightarrow> Some (next_ref w) | Some x \<Rightarrow> None)"
  "timers (setConnection_head s c w) =
     (case c of None \<Rightarrow> (timers_after_cancel s w)(next_ref w \<mapsto> s)
      | Some x \<Rightarrow> timers_after_cancel s w)"
  "listeners (switches (setConnection_head s c w) s) = []"
  "con_listeners (setConnection_head s c w) = listeners_after_remove s w"
  by (simp_all add: setConnection_head_def Let_def removeListeners_def cancel_timer_def
        new_Timer_def set_switch_def timers_after_cancel_def listeners_after_remove_def
        split: option.splits)

lemma setConnection_ports_ports_frame:
  "ports_frame s (set_switch s ((switches w s)\<lparr>capabilities := ofp_capabilities f\<rparr>) w)
     (state_of (setConnection_ports s f w))"
proof -
  let ?w1 = "set_switch s ((switches w s)\<lparr>capabilities := ofp_capabilities f\<rparr>) w"
  let ?U = "map fst (ports (switches w s))"
  have 2: "ports_frame s ?w1 (loop_world (update_ports s (ofp_ports f) ?U ?w1))"
    by (rule update_ports_frame)
  show ?thesis
  proof (cases "update_ports s (ofp_ports f) ?U ?w1")
    case (Inl a)
    then show ?thesis
      using 2 by (simp add: setConnection_ports_state loop_world_def split: prod.splits)
  next
    case (Inr b)
    obtain U w2 where b: "b = (U, w2)" by (cases b)
    have "ports_frame s w2 (state_of (remove_untouched s U w2))"
      by (rule remove_untouched_frame)
    with 2 Inr b show ?thesis
      by (simp add: setConnection_ports_state loop_world_def ports_frame_trans)
  qed
qed

lemma setConnection_ports_keeps:
  "timers (state_of (setConnection_ports s f w)) = timers w"
  "con_listeners (state_of (setConnection_ports s f w)) = con_listeners w"
  "connection (switches (state_of (setConnection_ports s f w)) s) = connection (switches w s)"
  "reconnectTimeout (switches (state_of (setConnection_ports s f w)) s) =
     reconnectTimeout (switches w s)"
  "listeners (switches (state_of (setConnection_ports s f w)) s) = listeners (switches w s)"
  "next_ref w \<le> next_ref (state_of (setConnection_ports s f w))"
proof -
  let ?w' = "state_of (setConnection_ports s f w)"
  have F: "ports_frame s (set_switch s ((switches w s)\<lparr>capabilities := ofp_capabilities f\<rparr>) w) ?w'"
    by (rule setConnection_ports_ports_frame)
  then have sw: "switches ?w' s =
      (switches w s)\<lparr>capabilities := ofp_capabilities f, ports := ports (switches ?w' s)\<rparr>"
    by (simp add: ports_frame_def set_switch_def)
  show "timers ?w' = timers w" "con_listeners ?w' = con_listeners w"
    "next_ref w \<le> next_ref ?w'"
    using F by (simp_all add: ports_frame_def set_switch_def)
  show "connection (switches ?w' s) = connection (switches w s)"
    by (subst sw) simp
  show "reconnectTimeout (switches ?w' s) = reconnectTimeout (switches w s)"
    by (subst sw) simp
  show "listeners (switches ?w' s) = listeners (switches w s)"
    by (subst sw) simp
qed

lemma listen_effect:
  "timers (listenTo_con s c w) = timers w"
  "connection (switches (listenTo_con s c w) s) = connection (switches w s)"
  "reconnectTimeout (switches (listenTo_con s c w) s) = reconnectTimeout (switches w s)"
  "listeners (switches (listenTo_con s c w) s) = [next_ref w]"
  "con_listeners (listenTo_con s c w) = insert (c, next_ref w, s) (con_listeners w)"
  by (simp_all add: listenTo_con_def set_switch_def)

text \<open>The connection handle and the timer after \<open>_setConnection\<close>, returned or raised.\<close>

lemma setConnection_effect:
  "connection (switches (state_of (setConnection s c ofp w)) s) = c"
  "reconnectTimeout (switches (state_of (setConnection s c ofp w)) s) =
     (case c of None \<Rightarrow> Some (next_ref w) | Some x \<Rightarrow> None)"
  "timers (state_of (setConnection s c ofp w)) =
     (case c of None \<Rightarrow> (timers_after_cancel s w)(next_ref w \<mapsto> s)
      | Some x \<Rightarrow> timers_after_cancel s w)"
proof -
  let ?h = "setConnection_head s c w"
  have "connection (switches (state_of (setConnection s c ofp w)) s) = c \<and>
    reconnectTimeout (switches (state_of (setConnection s c ofp w)) s) =
      (case c of None \<Rightarrow> Some (next_ref w) | Some x \<Rightarrow> None) \<and>
    timers (state_of (setConnection s c ofp w)) =
      (case c of None \<Rightarrow> (timers_after_cancel s w)(next_ref w \<mapsto> s)
       | Some x \<Rightarrow> timers_after_cancel s w)"
  proof (cases ofp)
    case None
    then show ?thesis
      by (simp add: setConnection_state head_effect listen_effect split: option.splits)
  next
    case (Some f)
    show ?thesis
    proof (cases "setConnection_ports s f ?h")
      case (Inl a)
      obtain e w' where a: "a = (e, w')" by (cases a)
      from setConnection_ports_keeps [where s = s and f = f and w = "?h"] have "timers w' = timers ?h"
        "connection (switches w' s) = connection (switches ?h s)"
        "reconnectTimeout (switches w' s) = reconnectTimeout (switches ?h s)"
        by (simp_all add: Inl a state_of_def)
      then show ?thesis
        by (simp add: setConnection_state Some Inl a head_effect)
    next
      case (Inr w1)
      from setConnection_ports_keeps [where s = s and f = f and w = "?h"] have "timers w1 = timers ?h"
        "connection (switches w1 s) = connection (switches ?h s)"
        "reconnectTimeout (switches w1 s) = reconnectTimeout (switches ?h s)"
        by (simp_all add: Inr state_of_def)
      then show ?thesis
        by (simp add: setConnection_state Some Inr head_effect listen_effect
              split: option.splits)
    qed
  qed
  then show "connection (switches (state_of (setConnection s c ofp w)) s) = c"
    "reconnectTimeout (switches (state_of (setConnection s c ofp w)) s) =
      (case c of None \<Rightarrow> Some (next_ref w) | Some x \<Rightarrow> None)"
    "timers (state_of (setConnection s c ofp w)) =
      (case c of None \<Rightarrow> (timers_after_cancel s w)(next_ref w \<mapsto> s)
       | Some x \<Rightarrow> timers_after_cancel s w)"
    by simp_all
qed

lemma setConnection_None_Inr:
  "setConnection s c None w = Inr (state_of (setConnection s c None w))"
  by (simp add: setConnection_def state_of_def split: option.splits)


text \<open>The adaptor's handlers and the registry.\<close>

lemma con_ConnectionDown_Inr:
  "handle_con_ConnectionDown s w = Inr (state_of (handle_con_ConnectionDown s w))"
  by (simp add: handle_con_ConnectionDown_def setConnection_None_Inr [symmetric])

lemma con_ConnectionDown_same_registry:
  "same_registry w (state_of (handle_con_ConnectionDown s w))"
  unfolding handle_con_ConnectionDown_def
  by (rule conn_frame_same_registry [OF setConnection_conn_frame])

lemma nexus_ConnectionDown_same_registry:
  "same_registry w (state_of (handle_openflow_ConnectionDown d w))"
  by (simp add: handle_openflow_ConnectionDown_def same_registry_def state_of_def
        getEntityByID_def log_append_def set_switch_def Let_def split: option.splits)

lemma disconnect_same_registry: "same_registry w (disconnect path d s w)"
proof (induction path arbitrary: w)
  case Nil
  then show ?case by simp
next
  case (Cons a path)
  show ?case
  proof (cases a)
    case ViaConnection
    then show ?thesis
      using same_registry_trans [OF con_ConnectionDown_same_registry Cons.IH] by simp
  next
    case ViaNexus
    then show ?thesis
      using same_registry_trans [OF nexus_ConnectionDown_same_registry Cons.IH] by simp
  qed
qed

lemma log_append_simps [simp]:
  "switches (log_append m w) = switches w" "timers (log_append m w) = timers w"
  "entities_by_id (log_append m w) = entities_by_id w" "raised (log_append m w) = raised w"
  "adaptor (log_append m w) = adaptor w" "core_components (log_append m w) = core_components w"
  "next_ref (log_append m w) = next_ref w" "port_objs (log_append m w) = port_objs w"
  "con_listeners (log_append m w) = con_listeners w" "logged (log_append m w) = logged w @ [m]"
  by (simp_all add: log_append_def)

lemma same_registry_log_append [simp]: "same_registry w (log_append m w)"
  by (simp add: same_registry_def)

text \<open>A connection-up for a switch the topology store knows.\<close>

lemma ConnectionUp_known:
  fixes c :: conn and f :: ofp_features
  assumes b: "attrs (adaptor w) ''topology'' = Bound" and k: "getEntityByID w d = Some s"
  defines "r \<equiv> handle_openflow_ConnectionUp d c f w"
  shows "same_registry w (state_of r)"
    and "connection (switches (state_of r) s) = Some c"
    and "reconnectTimeout (switches (state_of r) s) = None"
    and "timers (state_of r) = timers_after_cancel s w"
    and "logged (state_of r) =
           logged w @ (if connection (switches w s) \<noteq> None then [WarnAlreadyConnected d] else []) @
             (if isl r then [] else [InfoConnected d])"
proof -
  define w0 where "w0 = (if connection (switches w s) \<noteq> None
                         then log_append (WarnAlreadyConnected d) w else w)"
  let ?x = "setConnection s (Some c) (Some f) w0"
  have r: "r = (case ?x of Inl e \<Rightarrow> Inl e | Inr w2 \<Rightarrow> Inr (log_append (InfoConnected d) w2))"
    using b k by (simp add: r_def w0_def handle_openflow_ConnectionUp_def)
  have F: "conn_frame s w0 (state_of ?x)" by (rule setConnection_conn_frame)
  have R0: "same_registry w w0" by (simp add: w0_def)
  have R: "same_registry w (state_of ?x)"
    using same_registry_trans [OF R0 conn_frame_same_registry [OF F]] .
  have T0: "timers_after_cancel s w0 = timers_after_cancel s w"
    by (simp add: w0_def timers_after_cancel_def split: option.splits)
  have L0: "logged w0 =
      logged w @ (if connection (switches w s) \<noteq> None then [WarnAlreadyConnected d] else [])"
    by (simp add: w0_def)
  note E = setConnection_effect [of s "Some c" "Some f" w0]
  have "same_registry w (state_of r) \<and> connection (switches (state_of r) s) = Some c \<and>
      reconnectTimeout (switches (state_of r) s) = None \<and>
      timers (state_of r) = timers_after_cancel s w \<and>
      logged (state_of r) = logged w0 @ (if isl r then [] else [InfoConnected d])"
  proof (cases ?x)
    case (Inl a)
    obtain e w' where a: "a = (e, w')" by (cases a)
    from R E F have "same_registry w w'" "connection (switches w' s) = Some c"
      "reconnectTimeout (switches w' s) = None" "timers w' = timers_after_cancel s w"
      "logged w' = logged w0"
      by (simp_all add: Inl a state_of_def T0 conn_frame_def)
    then show ?thesis by (simp add: r Inl a state_of_def)
  next
    case (Inr w2)
    from R E F have "same_registry w w2" "connection (switches w2 s) = Some c"
      "reconnectTimeout (switches w2 s) = None" "timers w2 = timers_after_cancel s w"
      "logged w2 = logged w0"
      by (simp_all add: Inr state_of_def T0 conn_frame_def)
    then show ?thesis by (simp add: r Inr state_of_def same_registry_def)
  qed
  then show "same_registry w (state_of r)" "connection (switches (state_of r) s) = Some c"
    "reconnectTimeout (switches (state_of r) s) = None"
    "timers (state_of r) = timers_after_cancel s w"
    "logged (state_of r) =
       logged w @ (if connection (switches w s) \<noteq> None then [WarnAlreadyConnected d] else []) @
         (if isl r then [] else [InfoConnected d])"
    by (simp_all add: L0)
qed

text \<open>A connection-up for a switch the topology store does not know.\<close>

lemma ConnectionUp_new:
  assumes b: "attrs (adaptor w) ''topology'' = Bound" and k: "getEntityByID w d = None"
    and run: "handle_openflow_ConnectionUp d c f w = Inr w1"
  shows "entities_by_id w1 = (entities_by_id w)(d \<mapsto> next_ref w)"
    and "raised w1 = raised w @ [SwitchJoin (next_ref w)]"
    and "dpid (switches w1 (next_ref w)) = d"
    and "adaptor w1 = adaptor w" and "core_components w1 = core_components w"
    and "connection (switches w1 (next_ref w)) = Some c"
proof -
  let ?s = "next_ref w"
  let ?w0 = "set_switch ?s (OpenFlowSwitch_init d) (w\<lparr>next_ref := Suc ?s\<rparr>)"
  from run b k obtain w2 where x: "setConnection ?s (Some c) (Some f) ?w0 = Inr w2"
    and w1: "w1 = (topology_addEntity ?s (log_append (InfoConnected d) w2))
                    \<lparr>raised := raised w2 @ [SwitchJoin ?s]\<rparr>"
    by (auto simp: handle_openflow_ConnectionUp_def Let_def topology_addEntity_def
             split: sum.splits)
  have F: "conn_frame ?s ?w0 w2"
    using setConnection_conn_frame [of ?s ?w0 "Some c" "Some f"] by (simp add: x state_of_def)
  have E: "connection (switches w2 ?s) = Some c"
    using setConnection_effect(1) [of ?s "Some c" "Some f" ?w0] by (simp add: x state_of_def)
  have d2: "dpid (switches w2 ?s) = d"
    using F by (simp add: conn_frame_def set_switch_def OpenFlowSwitch_init_def)
  show "entities_by_id w1 = (entities_by_id w)(d \<mapsto> next_ref w)"
    using F d2 by (simp add: w1 topology_addEntity_def conn_frame_def set_switch_def)
  show "raised w1 = raised w @ [SwitchJoin (next_ref w)]"
    using F by (simp add: w1 topology_addEntity_def conn_frame_def set_switch_def)
  show "dpid (switches w1 (next_ref w)) = d"
    using d2 by (simp add: w1 topology_addEntity_def)
  show "adaptor w1 = adaptor w" "core_components w1 = core_components w"
    using F by (simp_all add: w1 topology_addEntity_def conn_frame_def set_switch_def)
  show "connection (switches w1 (next_ref w)) = Some c"
    using E by (simp add: w1 topology_addEntity_def)
qed

text \<open>
  C1. For every switch identifier: when the first connection-up for it returns, the new
  switch object is registered under the identifier and one SwitchJoin is raised; after
  any run of connection-down handlers (with no timer expiry in between), a second
  connection-up, returning or raising, leaves the same switch object registered, carrying
  the same identifier and the new connection handle, and raises no further event. A
  connection-up for a registered switch that still has a connection handle logs the
  duplicate-connection warning, installs the new handle, and leaves the topology store
  and the raised events as they were.
\<close>

theorem reconnect_keeps_entity:
  "(attrs (adaptor w) ''topology'' = Bound \<longrightarrow> getEntityByID w d = None \<longrightarrow>
      handle_openflow_ConnectionUp d c1 f1 w = Inr w1 \<longrightarrow>
      entities_by_id w1 d = Some (next_ref w) \<and>
      raised w1 = raised w @ [SwitchJoin (next_ref w)] \<and>
      (let w3 = state_of (handle_openflow_ConnectionUp d c2 f2
                            (disconnect path d (next_ref w) w1))
       in entities_by_id w3 d = Some (next_ref w) \<and> dpid (switches w3 (next_ref w)) = d \<and>
          connection (switches w3 (next_ref w)) = Some c2 \<and> raised w3 = raised w1)) \<and>
   (attrs (adaptor w) ''topology'' = Bound \<longrightarrow> getEntityByID w d = Some s \<longrightarrow>
      connection (switches w s) \<noteq> None \<longrightarrow>
      logged (state_of (handle_openflow_ConnectionUp d c f w)) =
        logged w @ WarnAlreadyConnected d #
          (if isl (handle_openflow_ConnectionUp d c f w) then [] else [InfoConnected d]) \<and>
      connection (switches (state_of (handle_openflow_ConnectionUp d c f w)) s) = Some c \<and>
      entities_by_id (state_of (handle_openflow_ConnectionUp d c f w)) = entities_by_id w \<and>
      raised (state_of (handle_openflow_ConnectionUp d c f w)) = raised w)"
proof (intro conjI impI)
  assume b: "attrs (adaptor w) ''topology'' = Bound" and k: "getEntityByID w d = None"
    and run: "handle_openflow_ConnectionUp d c1 f1 w = Inr w1"
  note N = ConnectionUp_new [OF b k run]
  let ?s = "next_ref w"
  let ?w2 = "disconnect path d ?s w1"
  have R: "same_registry w1 ?w2" by (rule disconnect_same_registry)
  have b2: "attrs (adaptor ?w2) ''topology'' = Bound"
    using R b N(4) by (simp add: same_registry_def)
  have k2: "getEntityByID ?w2 d = Some ?s"
    using R N(1) by (simp add: same_registry_def getEntityByID_def)
  note K = ConnectionUp_known [OF b2 k2, where c = c2 and f = f2]
  have R3: "same_registry w1 (state_of (handle_openflow_ConnectionUp d c2 f2 ?w2))"
    using same_registry_trans [OF R K(1)] .
  show "entities_by_id w1 d = Some (next_ref w)" using N(1) by simp
  show "raised w1 = raised w @ [SwitchJoin (next_ref w)]" by (rule N(2))
  show "let w3 = state_of (handle_openflow_ConnectionUp d c2 f2 (disconnect path d (next_ref w) w1))
       in entities_by_id w3 d = Some (next_ref w) \<and> dpid (switches w3 (next_ref w)) = d \<and>
          connection (switches w3 (next_ref w)) = Some c2 \<and> raised w3 = raised w1"
    using R3 N(1,3) K(2) by (simp add: Let_def same_registry_def)
next
  assume b: "attrs (adaptor w) ''topology'' = Bound" and k: "getEntityByID w d = Some s"
    and c: "connection (switches w s) \<noteq> None"
  note K = ConnectionUp_known [OF b k, where c = c and f = f]
  show "logged (state_of (handle_openflow_ConnectionUp d c f w)) =
        logged w @ WarnAlreadyConnected d #
          (if isl (handle_openflow_ConnectionUp d c f w) then [] else [InfoConnected d])"
    using K(5) c by simp
  show "connection (switches (state_of (handle_openflow_ConnectionUp d c f w)) s) = Some c"
    by (rule K(2))
  show "entities_by_id (state_of (handle_openflow_ConnectionUp d c f w)) = entities_by_id w"
    "raised (state_of (handle_openflow_ConnectionUp d c f w)) = raised w"
    using K(1) by (simp_all add: same_registry_def)
qed


lemma ready_facts:
  "attrs (adaptor ready_world) ''topology'' = Bound" "getEntityByID ready_world (Suc 0) = None"
  "next_ref ready_world = 0" "raised ready_world = []" "logged ready_world = [DebugReady]"
  by (simp_all add: example_defs model_defs)

lemma connected_run: "handle_openflow_ConnectionUp 1 10 features1 ready_world = Inr connected_world"
  by (simp add: example_defs model_defs)

lemma connected_facts:
  "attrs (adaptor connected_world) ''topology'' = Bound"
  "getEntityByID connected_world (Suc 0) = Some 0"
  "entities_by_id connected_world (Suc 0) = Some 0"
  "connection (switches connected_world 0) = Some 10"
  "dpid (switches connected_world 0) = Suc 0"
  "reconnectTimeout (switches connected_world 0) = None"
  "hasComponent connected_world ''topology''"
  "raised connected_world = [SwitchJoin 0]"
  "logged connected_world = [DebugReady, InfoConnected 1]"
  "con_listeners connected_world = {(10, 3, 0)}"
  by (simp_all add: example_defs model_defs)

theorem reconnect_keeps_entity_witness:
  "entities_by_id connected_world 1 = Some 0 \<and> raised connected_world = [SwitchJoin 0] \<and>
   entities_by_id (state_of (handle_openflow_ConnectionUp 1 11 features2
      (disconnect [ViaConnection, ViaNexus] 1 0 connected_world))) 1 = Some 0 \<and>
   raised (state_of (handle_openflow_ConnectionUp 1 11 features2
      (disconnect [ViaConnection, ViaNexus] 1 0 connected_world))) = [SwitchJoin 0] \<and>
   connection (switches (state_of (handle_openflow_ConnectionUp 1 12 features2 connected_world)) 0) =
     Some 12 \<and>
   entities_by_id (state_of (handle_openflow_ConnectionUp 1 12 features2 connected_world)) =
     entities_by_id connected_world \<and>
   WarnAlreadyConnected 1 \<in>
     set (logged (state_of (handle_openflow_ConnectionUp 1 12 features2 connected_world)))"
proof -
  note A = reconnect_keeps_entity
    [of ready_world 1 10 features1 connected_world 11 features2 "[ViaConnection, ViaNexus]"
        0 12 features2]
  note B = reconnect_keeps_entity
    [of connected_world 1 10 features1 connected_world 11 features2 "[ViaConnection, ViaNexus]"
        0 12 features2]
  have 1: "entities_by_id connected_world 1 = Some (next_ref ready_world) \<and>
      raised connected_world = raised ready_world @ [SwitchJoin (next_ref ready_world)] \<and>
      (let w3 = state_of (handle_openflow_ConnectionUp 1 11 features2
                            (disconnect [ViaConnection, ViaNexus] 1 (next_ref ready_world)
                               connected_world))
       in entities_by_id w3 1 = Some (next_ref ready_world) \<and>
          dpid (switches w3 (next_ref ready_world)) = 1 \<and>
          connection (switches w3 (next_ref ready_world)) = Some 11 \<and>
          raised w3 = raised connected_world)"
    using A ready_facts connected_run by (simp add: Let_def)
  have 2: "logged (state_of (handle_openflow_ConnectionUp 1 12 features2 connected_world)) =
        logged connected_world @ WarnAlreadyConnected 1 #
          (if isl (handle_openflow_ConnectionUp 1 12 features2 connected_world) then []
           else [InfoConnected 1]) \<and>
      connection (switches (state_of (handle_openflow_ConnectionUp 1 12 features2 connected_world)) 0) =
        Some 12 \<and>
      entities_by_id (state_of (handle_openflow_ConnectionUp 1 12 features2 connected_world)) =
        entities_by_id connected_world \<and>
      raised (state_of (handle_openflow_ConnectionUp 1 12 features2 connected_world)) =
        raised connected_world"
    using B connected_facts by simp
  from 1 2 show ?thesis
    by (simp add: ready_facts connected_facts Let_def)
qed

lemma fire_timer_cancelled: "timers w t = None \<Longrightarrow> fire_timer t w = Inr w"
  by (simp add: fire_timer_def)

text \<open>
  C2. For every registered switch: the switch's connection-down handler arms a timer. If
  the timer expires, its callback clears the timer reference of the switch, removes the
  switch from the topology store and raises exactly one SwitchLeave; the expired timer
  does nothing when fired again. If instead a connection-up arrives first, the timer is
  cancelled and the timer reference cleared, firing the cancelled timer does nothing, and
  no SwitchLeave is raised.
\<close>

theorem reconnect_timeout:
  "entities_by_id w d = Some s \<longrightarrow> dpid (switches w s) = d \<longrightarrow> hasComponent w ''topology'' \<longrightarrow>
   attrs (adaptor w) ''topology'' = Bound \<longrightarrow>
   (\<exists>w1. handle_con_ConnectionDown s w = Inr w1 \<and>
      reconnectTimeout (switches w1 s) = Some (next_ref w) \<and>
      timers w1 (next_ref w) = Some s \<and>
      (\<exists>w2. fire_timer (next_ref w) w1 = Inr w2 \<and>
         reconnectTimeout (switches w2 s) = None \<and> timers w2 (next_ref w) = None \<and>
         entities_by_id w2 = (entities_by_id w)(d := None) \<and>
         raised w2 = raised w1 @ [SwitchLeave s] \<and>
         fire_timer (next_ref w) w2 = Inr w2) \<and>
      (let w3 = state_of (handle_openflow_ConnectionUp d c f w1)
       in reconnectTimeout (switches w3 s) = None \<and> timers w3 (next_ref w) = None \<and>
          fire_timer (next_ref w) w3 = Inr w3 \<and> raised w3 = raised w1 \<and>
          entities_by_id w3 d = Some s))"
proof (intro impI)
  assume k: "entities_by_id w d = Some s" and d: "dpid (switches w s) = d"
    and h: "hasComponent w ''topology''" and b: "attrs (adaptor w) ''topology'' = Bound"
  define w1 where "w1 = state_of (handle_con_ConnectionDown s w)"
  let ?t = "next_ref w"
  have run: "handle_con_ConnectionDown s w = Inr w1"
    unfolding w1_def by (rule con_ConnectionDown_Inr)
  have R: "same_registry w w1" unfolding w1_def by (rule con_ConnectionDown_same_registry)
  have E: "reconnectTimeout (switches w1 s) = Some ?t" "timers w1 ?t = Some s"
    using setConnection_effect(2,3) [of s None None w]
    by (simp_all add: w1_def handle_con_ConnectionDown_def)
  have fire: "\<exists>w2. fire_timer ?t w1 = Inr w2 \<and>
         reconnectTimeout (switches w2 s) = None \<and> timers w2 ?t = None \<and>
         entities_by_id w2 = (entities_by_id w)(d := None) \<and>
         raised w2 = raised w1 @ [SwitchLeave s] \<and>
         fire_timer ?t w2 = Inr w2"
    using E R h d
    by (simp add: fire_timer_def timer_ReconnectTimeout_def Let_def hasComponent_def
          topology_removeEntity_def set_switch_def same_registry_def)
  have b1: "attrs (adaptor w1) ''topology'' = Bound" using R b by (simp add: same_registry_def)
  have k1: "getEntityByID w1 d = Some s" using R k by (simp add: same_registry_def getEntityByID_def)
  note K = ConnectionUp_known [OF b1 k1, where c = c and f = f]
  have T: "timers (state_of (handle_openflow_ConnectionUp d c f w1)) ?t = None"
    using K(4) E by (simp add: timers_after_cancel_def)
  have up: "let w3 = state_of (handle_openflow_ConnectionUp d c f w1)
       in reconnectTimeout (switches w3 s) = None \<and> timers w3 ?t = None \<and>
          fire_timer ?t w3 = Inr w3 \<and> raised w3 = raised w1 \<and>
          entities_by_id w3 d = Some s"
    using K(1,3) T R k by (simp add: Let_def fire_timer_cancelled same_registry_def)
  show "\<exists>w1. handle_con_ConnectionDown s w = Inr w1 \<and>
      reconnectTimeout (switches w1 s) = Some (next_ref w) \<and>
      timers w1 (next_ref w) = Some s \<and>
      (\<exists>w2. fire_timer (next_ref w) w1 = Inr w2 \<and>
         reconnectTimeout (switches w2 s) = None \<and> timers w2 (next_ref w) = None \<and>
         entities_by_id w2 = (entities_by_id w)(d := None) \<and>
         raised w2 = raised w1 @ [SwitchLeave s] \<and>
         fire_timer (next_ref w) w2 = Inr w2) \<and>
      (let w3 = state_of (handle_openflow_ConnectionUp d c f w1)
       in reconnectTimeout (switches w3 s) = None \<and> timers w3 (next_ref w) = None \<and>
          fire_timer (next_ref w) w3 = Inr w3 \<and> raised w3 = raised w1 \<and>
          entities_by_id w3 d = Some s)"
    using run E fire up by blast
qed

theorem reconnect_timeout_witness:
  "\<exists>w1. handle_con_ConnectionDown 0 connected_world = Inr w1 \<and>
      reconnectTimeout (switches w1 0) = Some 4 \<and> timers w1 4 = Some 0 \<and>
      (\<exists>w2. fire_timer 4 w1 = Inr w2 \<and> entities_by_id w2 1 = None \<and>
         raised w2 = raised w1 @ [SwitchLeave 0]) \<and>
      timers (state_of (handle_openflow_ConnectionUp 1 11 features2 w1)) 4 = None \<and>
      raised (state_of (handle_openflow_ConnectionUp 1 11 features2 w1)) = raised w1"
proof -
  from reconnect_timeout [of connected_world 1 0 11 features2] connected_facts
  obtain w1 where "handle_con_ConnectionDown 0 connected_world = Inr w1"
    "reconnectTimeout (switches w1 0) = Some (next_ref connected_world)"
    "timers w1 (next_ref connected_world) = Some 0"
    "\<exists>w2. fire_timer (next_ref connected_world) w1 = Inr w2 \<and>
         reconnectTimeout (switches w2 0) = None \<and> timers w2 (next_ref connected_world) = None \<and>
         entities_by_id w2 = (entities_by_id connected_world)(1 := None) \<and>
         raised w2 = raised w1 @ [SwitchLeave 0] \<and>
         fire_timer (next_ref connected_world) w2 = Inr w2"
    "let w3 = state_of (handle_openflow_ConnectionUp 1 11 features2 w1)
       in reconnectTimeout (switches w3 0) = None \<and> timers w3 (next_ref connected_world) = None \<and>
          fire_timer (next_ref connected_world) w3 = Inr w3 \<and> raised w3 = raised w1 \<and>
          entities_by_id w3 1 = Some 0"
    by auto
  then show ?thesis
    by (intro exI [of _ w1]) (auto simp: connected_next_ref Let_def)
qed

lemmas gate_defs =
  booting_world_def openflow_only_world_def half_ready_world_def core_register_def
  handle_ComponentRegistered_def nexus_down_world_def handle_openflow_ConnectionDown_def
  handle_con_ConnectionDown_def

section \<open>Connection-down\<close>

text \<open>
  The switch's own handler, \<open>_setConnection(None)\<close>: the handle is cleared, the listeners
  registered on the old connection are taken off it, and a timer is armed.
\<close>

lemma con_ConnectionDown_effect:
  "connection (switches (state_of (handle_con_ConnectionDown s w)) s) = None"
  "reconnectTimeout (switches (state_of (handle_con_ConnectionDown s w)) s) = Some (next_ref w)"
  "timers (state_of (handle_con_ConnectionDown s w)) (next_ref w) = Some s"
  "con_listeners (state_of (handle_con_ConnectionDown s w)) = listeners_after_remove s w"
  by (simp_all add: handle_con_ConnectionDown_def setConnection_state head_effect)

text \<open>
  C3. The adaptor's handler of the nexus event does not do this. On the connected switch
  1 it returns with the connection handle cleared by direct assignment: the switch is
  still in the topology store, has no connection, and no timer is pending; its listener
  is still registered on the old connection, and stays so when the switch's own handler
  runs afterwards, since that one finds no connection to take the listeners off.
\<close>

theorem nexus_connection_down_arms_no_timer:
  "handle_openflow_ConnectionDown 1 connected_world = Inr nexus_down_world \<and>
   entities_by_id nexus_down_world 1 = Some 0 \<and>
   connection (switches nexus_down_world 0) = None \<and>
   reconnectTimeout (switches nexus_down_world 0) = None \<and>
   timers nexus_down_world = Map.empty \<and>
   con_listeners nexus_down_world = {(10, 3, 0)} \<and>
   con_listeners (state_of (handle_con_ConnectionDown 0 nexus_down_world)) = {(10, 3, 0)}"
  by (simp add: gate_defs example_defs model_defs)

section \<open>The dependency gate\<close>

text \<open>
  C7. The adaptor subscribes to each component as soon as that component is resolved,
  not when the last one is. With openflow and topology registered and
  openflow_discovery still wanted (the gate not ready, nothing logged, the adaptor still
  listening to the core), a connection-up is handled: a switch is created, registered
  and announced. With openflow alone registered the same event raises AttributeError,
  the topology attribute being None.
\<close>

theorem events_processed_before_ready:
  "wantComponents (adaptor half_ready_world) = Some [''openflow_discovery''] \<and>
   listening_core (adaptor half_ready_world) = True \<and>
   logged half_ready_world = [] \<and>
   entities_by_id half_ready_world 1 = None \<and>
   isl (deliver (ConnectionUp 1 10 features1) half_ready_world) = False \<and>
   entities_by_id (state_of (deliver (ConnectionUp 1 10 features1) half_ready_world)) 1 = Some 0 \<and>
   raised (state_of (deliver (ConnectionUp 1 10 features1) half_ready_world)) = [SwitchJoin 0] \<and>
   deliver (ConnectionUp 1 10 features1) openflow_only_world =
     Inl (AttributeError, openflow_only_world)"
  by (simp add: gate_defs example_defs model_defs)

end
